(* ===== verification/Reprox_Prelude.thy ===== *)
theory Reprox_Prelude
  imports Complex_Main "HOL-Library.Word" "HOL-Library.Sublist"
begin

text \<open>
  Prelude of the development: the types every component uses, the machine integers and the
  result type of the Rust code, and the generic lemmas on lists, maps, words and results that
  the component theories share.

  Rust integers are words of their width (\<open>u64\<close>, \<open>u32\<close>, \<open>u16\<close>; \<open>usize\<close> is 64 bits wide on
  the deployment target, and an \<open>i64\<close> is a 64-bit word read with \<open>sint\<close>), so the wrap-around of
  the atomic counters is the wrap-around of \<open>+\<close> and \<open>-\<close> on words.
  A Rust \<open>String\<close> is the \<^typ>\<open>string\<close> of its UTF-8 bytes (a \<^typ>\<open>char\<close> of HOL is one byte), which
  is also the type of a byte buffer.
  A \<open>Result<T, E>\<close> is the sum \<open>'e + 'a\<close> with the error on the left.
\<close>

type_synonym u8 = "8 word"
type_synonym u16 = "16 word"
type_synonym u32 = "32 word"
type_synonym u64 = "64 word"
type_synonym usize = "64 word"
type_synonym i64 = "64 word"
type_synonym bytes = string

text \<open>Collections that the component theories fill and their proofs use by name.\<close>

named_theorems std_simps
  \<open>evaluation rules for the models of the Rust standard library\<close>
named_theorems inv_intros
  \<open>introduction rules: the operations of a component keep its invariant\<close>


section \<open>Results\<close>

text \<open>The question-mark operator and the \<open>ensure!\<close> and \<open>bail!\<close> macros of the source.\<close>

definition rbind :: "'e + 'a \<Rightarrow> ('a \<Rightarrow> 'e + 'b) \<Rightarrow> 'e + 'b" where
  "rbind r f = (case r of Inl e \<Rightarrow> Inl e | Inr a \<Rightarrow> f a)"

definition ensure :: "bool \<Rightarrow> 'e \<Rightarrow> 'e + unit" where
  "ensure b e = (if b then Inr () else Inl e)"

definition is_ok :: "'e + 'a \<Rightarrow> bool" where
  "is_ok r = (case r of Inl _ \<Rightarrow> False | Inr _ \<Rightarrow> True)"

definition map_err :: "('e \<Rightarrow> 'f) \<Rightarrow> 'e + 'a \<Rightarrow> 'f + 'a" where
  "map_err f r = (case r of Inl e \<Rightarrow> Inl (f e) | Inr a \<Rightarrow> Inr a)"

lemma rbind_simps [simp]:
  "rbind (Inl e) f = Inl e"
  "rbind (Inr a) f = f a"
  by (simp_all add: rbind_def)

lemma rbind_Inr_iff: "rbind r f = Inr b \<longleftrightarrow> (\<exists>a. r = Inr a \<and> f a = Inr b)"
  by (cases r) simp_all

lemma ensure_Inr_iff [simp]: "ensure b e = Inr u \<longleftrightarrow> b"
  by (simp add: ensure_def)

lemma ensure_Inl_iff [simp]: "ensure b e = Inl e' \<longleftrightarrow> \<not> b \<and> e' = e"
  by (auto simp: ensure_def)

lemma rbind_ensure: "rbind (ensure b e) f = (if b then f () else Inl e)"
  by (simp add: ensure_def)

lemma is_ok_simps [simp]:
  "is_ok (Inl e) = False"
  "is_ok (Inr a) = True"
  by (simp_all add: is_ok_def)

lemma is_ok_iff: "is_ok r \<longleftrightarrow> (\<exists>a. r = Inr a)"
  by (cases r) simp_all

lemma is_ok_rbind: "is_ok (rbind r f) \<longleftrightarrow> (\<exists>a. r = Inr a \<and> is_ok (f a))"
  by (cases r) simp_all

lemma is_ok_ensure [simp]: "is_ok (ensure b e) = b"
  by (simp add: ensure_def)

lemma map_err_simps [simp]:
  "map_err f (Inl e) = Inl (f e)"
  "map_err f (Inr a) = Inr a"
  by (simp_all add: map_err_def)

lemma is_ok_map_err [simp]: "is_ok (map_err f r) = is_ok r"
  by (cases r) simp_all

lemma map_err_Inr_iff [simp]: "map_err f r = Inr a \<longleftrightarrow> r = Inr a"
  by (cases r) simp_all


section \<open>Words\<close>

lemma unat_Suc_word:
  "unat (w + 1) = Suc (unat w)" if "unat w + 1 < 2 ^ LENGTH('a)" for w :: "'a::len word"
  using that by (simp add: unat_word_ariths)

lemma unat_pred_word: "unat (w - 1) = unat w - 1" if "0 < unat w" for w :: "'a::len word"
  using that by (metis gr0_conv_Suc unat_eq_zero unat_minus_one less_irrefl)

lemma unat_inc_of_less:
  "unat (w + 1) = Suc (unat w)" if "w < v" for w v :: "'a::len word"
proof (rule unat_Suc_word)
  have "unat w + 1 \<le> unat v" using that by (simp add: word_less_nat_alt)
  also have "unat v < 2 ^ LENGTH('a)" by (rule unsigned_less)
  finally show "unat w + 1 < 2 ^ LENGTH('a)" .
qed

lemma unat_u64_less: "unat (w :: 64 word) < 2 ^ 64"
  using unsigned_less [of w] by simp

lemma unat_of_nat_u64: "n < 2 ^ 64 \<Longrightarrow> unat (of_nat n :: 64 word) = n"
  by (simp add: unsigned_of_nat take_bit_nat_eq_self)

lemma of_nat_unat_pred:
  "of_nat (Suc n) - 1 = (of_nat n :: 'a::len word)"
  by simp


section \<open>Maps\<close>

text \<open>\<open>HashMap::retain\<close> and \<open>HashMap::remove\<close>.\<close>

definition map_retain :: "('v \<Rightarrow> bool) \<Rightarrow> ('k \<rightharpoonup> 'v) \<Rightarrow> ('k \<rightharpoonup> 'v)" where
  "map_retain p m = (\<lambda>k. case m k of None \<Rightarrow> None | Some v \<Rightarrow> if p v then Some v else None)"

lemma map_retain_eq_Some [simp]: "map_retain p m k = Some v \<longleftrightarrow> m k = Some v \<and> p v"
  by (auto simp: map_retain_def split: option.splits if_splits)

lemma map_retain_eq_None: "map_retain p m k = None \<longleftrightarrow> (\<forall>v. m k = Some v \<longrightarrow> \<not> p v)"
  by (auto simp: map_retain_def split: option.splits if_splits)

lemma dom_map_retain: "dom (map_retain p m) \<subseteq> dom m"
  by (auto simp: map_retain_def split: option.splits)

lemma finite_dom_map_retain: "finite (dom m) \<Longrightarrow> finite (dom (map_retain p m))"
  by (rule finite_subset [OF dom_map_retain])

lemma map_retain_empty [simp]: "map_retain p Map.empty = Map.empty"
  by (simp add: map_retain_def)

lemma card_dom_upd_new: "finite (dom m) \<Longrightarrow> m k = None \<Longrightarrow> card (dom (m(k \<mapsto> v))) = Suc (card (dom m))"
  by (simp add: domIff)

lemma card_dom_upd_old: "m k = Some v' \<Longrightarrow> card (dom (m(k \<mapsto> v))) = card (dom m)"
  by (simp add: insert_absorb domI)


section \<open>Sums over finite sets of keys\<close>

lemma sum_update_one:
  fixes f g :: "'k \<Rightarrow> nat"
  assumes "finite A" and "a \<in> A" and "\<And>x. x \<in> A \<Longrightarrow> x \<noteq> a \<Longrightarrow> g x = f x"
  shows "sum g A + f a = sum f A + g a"
proof -
  have "sum g (A - {a}) = sum f (A - {a})"
    by (rule sum.cong) (use assms(3) in auto)
  then show ?thesis
    using assms(1,2) by (simp add: sum.remove [of A a])
qed

end
