(* ===== verification/Std_Str.thy ===== *)
theory Std_Str
  imports Reprox_Prelude
begin

text \<open>
  The operations of the Rust standard library on strings that the source calls, on the UTF-8
  bytes of the string: integer formatting (\<open>{}\<close> and \<open>{:x}\<close>) and parsing (\<open>str::parse\<close>),
  \<open>trim_end_matches\<close>, \<open>to_ascii_lowercase\<close>, \<open>contains\<close>, \<open>rsplit_once\<close>, \<open>split(..).next()\<close>,
  \<open>char::is_whitespace\<close>, \<open>from_utf8\<close> and \<open>from_utf8_lossy\<close>.
  The lemmas are the round trip of integer printing and parsing and the characteristic
  equations of the splitting functions.
\<close>

section \<open>Printing integers\<close>

fun digits :: "nat \<Rightarrow> nat \<Rightarrow> nat list" where
  "digits b n = (if b < 2 \<or> n < b then [n] else digits b (n div b) @ [n mod b])"

declare digits.simps [simp del]

definition digit_char :: "nat \<Rightarrow> char" where
  [std_simps]: "digit_char d = char_of ((if d < 10 then 48 else 87) + d)"

definition show_nat :: "nat \<Rightarrow> string" where
  [std_simps]: "show_nat n = map digit_char (digits 10 n)"

definition show_hex :: "nat \<Rightarrow> string" where
  [std_simps]: "show_hex n = map digit_char (digits 16 n)"

definition show_int :: "int \<Rightarrow> string" where
  [std_simps]: "show_int i = (if i < 0 then ''-'' @ show_nat (nat (- i)) else show_nat (nat i))"

lemma digits_unfold [std_simps]:
  "digits (numeral b) n =
     (if (numeral b :: nat) < 2 \<or> n < numeral b then [n]
      else digits (numeral b) (n div numeral b) @ [n mod numeral b])"
  by (rule digits.simps)

declare char_of_eq_iff [std_simps]

lemma digits_nonempty [simp]: "digits b n \<noteq> []"
  by (subst digits.simps) simp

lemma digits_less: "2 \<le> b \<Longrightarrow> d \<in> set (digits b n) \<Longrightarrow> d < b"
proof (induction b n rule: digits.induct)
  case (1 b n)
  show ?case
  proof (cases "b < 2 \<or> n < b")
    case True
    with 1 show ?thesis by (auto simp: digits.simps [of b n])
  next
    case False
    with 1 show ?thesis by (auto simp: digits.simps [of b n])
  qed
qed

definition digits_value :: "nat \<Rightarrow> nat list \<Rightarrow> nat" where
  "digits_value b ds = foldl (\<lambda>acc d. acc * b + d) 0 ds"

lemma digits_value_digits: "digits_value b (digits b n) = n"
proof (induction b n rule: digits.induct)
  case (1 b n)
  show ?case
  proof (cases "b < 2 \<or> n < b")
    case True
    then show ?thesis by (simp add: digits.simps [of b n] digits_value_def)
  next
    case False
    with 1 have "digits_value b (digits b (n div b)) = n div b" by simp
    with False show ?thesis
      by (simp add: digits.simps [of b n] digits_value_def)
  qed
qed

lemma digits_inject: "digits b m = digits b n \<Longrightarrow> m = n"
  by (metis digits_value_digits)

lemma of_char_digit_char: "d < 16 \<Longrightarrow> (of_char (digit_char d) :: nat) = (if d < 10 then 48 else 87) + d"
  by (simp add: digit_char_def)

lemma digit_char_inject:
  assumes "c < 16" and "d < 16" and "digit_char c = digit_char d"
  shows "c = d"
proof -
  have "(of_char (digit_char c) :: nat) = of_char (digit_char d)"
    using assms(3) by simp
  then show ?thesis
    using assms(1,2) by (auto simp: of_char_digit_char split: if_splits)
qed

lemma map_digit_char_inject:
  "\<forall>d \<in> set xs. d < 16 \<Longrightarrow> \<forall>d \<in> set ys. d < 16 \<Longrightarrow> map digit_char xs = map digit_char ys \<Longrightarrow> xs = ys"
  by (rule map_inj_on [of digit_char]) (auto intro!: inj_onI dest!: digit_char_inject [rotated 2])

lemma show_hex_inject: "show_hex m = show_hex n \<Longrightarrow> m = n"
  unfolding show_hex_def
  by (rule digits_inject [of 16]) (rule map_digit_char_inject, auto dest: digits_less [rotated])


section \<open>Parsing integers\<close>

definition dec_digit :: "char \<Rightarrow> nat option" where
  [std_simps]: "dec_digit c = (let n = of_char c in if 48 \<le> n \<and> n \<le> 57 then Some (n - 48) else None)"

fun parse_digits :: "nat \<Rightarrow> string \<Rightarrow> nat option" where
  "parse_digits acc [] = Some acc"
| "parse_digits acc (c # cs) =
     (case dec_digit c of None \<Rightarrow> None | Some d \<Rightarrow> parse_digits (acc * 10 + d) cs)"

definition strip_plus :: "string \<Rightarrow> string" where
  [std_simps]: "strip_plus s = (case s of c # d # cs \<Rightarrow> if c = CHR ''+'' then d # cs else s | _ \<Rightarrow> s)"

text \<open>\<open>str::parse\<close> at an unsigned type of \<open>w\<close> bits: an optional plus sign, then at least one
  decimal digit and nothing else; an error when the value does not fit.\<close>

definition parse_uint :: "nat \<Rightarrow> string \<Rightarrow> nat option" where
  [std_simps]: "parse_uint w s =
     (if s = [] then None
      else case parse_digits 0 (strip_plus s) of
             None \<Rightarrow> None
           | Some n \<Rightarrow> if n < 2 ^ w then Some n else None)"

lemma dec_digit_digit_char: "d < 10 \<Longrightarrow> dec_digit (digit_char d) = Some d"
  by (simp add: dec_digit_def of_char_digit_char)

lemma parse_digits_map:
  "\<forall>d \<in> set ds. d < 10 \<Longrightarrow>
   parse_digits acc (map digit_char ds) = Some (foldl (\<lambda>acc d. acc * 10 + d) acc ds)"
  by (induction ds arbitrary: acc) (simp_all add: dec_digit_digit_char)

lemma parse_digits_show_nat: "parse_digits 0 (show_nat n) = Some n"
proof -
  have "\<forall>d \<in> set (digits 10 n). d < 10"
    using digits_less [of 10] by simp
  then have "parse_digits 0 (show_nat n) = Some (digits_value 10 (digits 10 n))"
    by (simp add: show_nat_def parse_digits_map digits_value_def)
  then show ?thesis by (simp add: digits_value_digits)
qed

lemma show_nat_chars: "c \<in> set (show_nat n) \<Longrightarrow> dec_digit c \<noteq> None"
  using digits_less [of 10] by (auto simp: show_nat_def dec_digit_digit_char)

lemma strip_plus_id: "(\<And>c cs. s = c # cs \<Longrightarrow> c \<noteq> CHR ''+'') \<Longrightarrow> strip_plus s = s"
  by (auto simp: strip_plus_def split: list.splits)

lemma strip_plus_show_nat [simp]: "strip_plus (show_nat n) = show_nat n"
proof (rule strip_plus_id)
  fix c cs
  assume "show_nat n = c # cs"
  then have "dec_digit c \<noteq> None"
    using show_nat_chars [of c n] by simp
  then show "c \<noteq> CHR ''+''" by (auto simp: dec_digit_def)
qed

lemma show_nat_nonempty [simp]: "show_nat n \<noteq> []"
  by (simp add: show_nat_def)

lemma parse_uint_show_nat: "n < 2 ^ w \<Longrightarrow> parse_uint w (show_nat n) = Some n"
  by (simp add: parse_uint_def parse_digits_show_nat)

lemma show_nat_inject: "show_nat m = show_nat n \<Longrightarrow> m = n"
  by (metis option.inject parse_digits_show_nat)

lemma parse_uint_bound: "parse_uint w s = Some n \<Longrightarrow> n < 2 ^ w"
  by (auto simp: parse_uint_def split: if_splits option.splits)


section \<open>Case, trimming and splitting\<close>

definition ascii_lower :: "char \<Rightarrow> char" where
  [std_simps]: "ascii_lower c = (let n = of_char c :: nat in if 65 \<le> n \<and> n \<le> 90 then char_of (n + 32) else c)"

definition to_ascii_lowercase :: "string \<Rightarrow> string" where
  [std_simps]: "to_ascii_lowercase s = map ascii_lower s"

lemma ascii_lower_idem [simp]: "ascii_lower (ascii_lower c) = ascii_lower c"
  by (auto simp: ascii_lower_def Let_def)

lemma ascii_lower_dot [simp]: "ascii_lower c = CHR ''.'' \<longleftrightarrow> c = CHR ''.''"
proof
  assume h: "ascii_lower c = CHR ''.''"
  show "c = CHR ''.''"
  proof (cases "65 \<le> (of_char c :: nat) \<and> (of_char c :: nat) \<le> 90")
    case True
    then have "ascii_lower c = char_of ((of_char c :: nat) + 32)"
      by (simp add: ascii_lower_def)
    then have "(of_char (ascii_lower c) :: nat) = of_char c + 32"
      using True by simp
    then show ?thesis using h True by simp
  next
    case False
    then show ?thesis using h by (simp add: ascii_lower_def Let_def split: if_splits)
  qed
next
  assume "c = CHR ''.''"
  then show "ascii_lower c = CHR ''.''" by (simp add: ascii_lower_def)
qed

lemma to_ascii_lowercase_idem [simp]:
  "to_ascii_lowercase (to_ascii_lowercase s) = to_ascii_lowercase s"
  by (simp add: to_ascii_lowercase_def)

definition trim_end_matches :: "char \<Rightarrow> string \<Rightarrow> string" where
  [std_simps]: "trim_end_matches c s = rev (dropWhile (\<lambda>x. x = c) (rev s))"

lemma trim_end_matches_idem [simp]: "trim_end_matches c (trim_end_matches c s) = trim_end_matches c s"
  by (simp add: trim_end_matches_def)

lemma trim_end_matches_last: "trim_end_matches c s \<noteq> [] \<Longrightarrow> last (trim_end_matches c s) \<noteq> c"
  using hd_dropWhile [of "\<lambda>x. x = c" "rev s"]
  by (auto simp: trim_end_matches_def last_rev)

lemma trim_end_matches_id: "s = [] \<or> last s \<noteq> c \<Longrightarrow> trim_end_matches c s = s"
  by (cases s rule: rev_cases) (auto simp: trim_end_matches_def)

text \<open>\<open>s.contains(p)\<close> for a string pattern.\<close>

fun str_contains :: "string \<Rightarrow> string \<Rightarrow> bool" where
  "str_contains p [] = (p = [])"
| "str_contains p (c # cs) = (prefix p (c # cs) \<or> str_contains p cs)"

lemma str_contains_iff: "str_contains p s \<longleftrightarrow> sublist p s"
proof (induction s)
  case Nil
  then show ?case by simp
next
  case (Cons c cs)
  then show ?case by (simp add: sublist_Cons_right)
qed

text \<open>\<open>s.rsplit_once(c)\<close>: before and after the last occurrence of \<open>c\<close>.\<close>

definition rsplit_once :: "char \<Rightarrow> string \<Rightarrow> (string \<times> string) option" where
  [std_simps]: "rsplit_once c s =
     (if c \<in> set s
      then Some (rev (tl (dropWhile (\<lambda>x. x \<noteq> c) (rev s))), rev (takeWhile (\<lambda>x. x \<noteq> c) (rev s)))
      else None)"

lemma rsplit_once_None_iff [simp]: "rsplit_once c s = None \<longleftrightarrow> c \<notin> set s"
  by (simp add: rsplit_once_def)

lemma rsplit_once_Some_iff: "rsplit_once c s = Some (a, b) \<longleftrightarrow> s = a @ c # b \<and> c \<notin> set b"
proof
  assume h: "rsplit_once c s = Some (a, b)"
  let ?t = "dropWhile (\<lambda>x. x \<noteq> c) (rev s)"
  from h have mem: "c \<in> set (rev s)" and a: "a = rev (tl ?t)"
    and b: "b = rev (takeWhile (\<lambda>x. x \<noteq> c) (rev s))"
    by (auto simp: rsplit_once_def split: if_splits)
  from mem have ne: "?t \<noteq> []" by (auto simp: dropWhile_eq_Nil_conv)
  then have "hd ?t = c" using hd_dropWhile [of "\<lambda>x. x \<noteq> c" "rev s"] by auto
  with ne have t: "?t = c # rev a" using a by (cases ?t) auto
  have "rev s = takeWhile (\<lambda>x. x \<noteq> c) (rev s) @ ?t" by simp
  then have "rev s = rev b @ c # rev a" using b t by simp
  then have "s = rev (rev b @ c # rev a)" by (metis rev_rev_ident)
  moreover have "c \<notin> set b" using b by (auto dest: set_takeWhileD)
  ultimately show "s = a @ c # b \<and> c \<notin> set b" by simp
next
  assume h: "s = a @ c # b \<and> c \<notin> set b"
  then have nb: "\<forall>x \<in> set (rev b). x \<noteq> c" by auto
  from h have r: "rev s = rev b @ c # rev a" by simp
  have "takeWhile (\<lambda>x. x \<noteq> c) (rev s) = rev b" and "dropWhile (\<lambda>x. x \<noteq> c) (rev s) = c # rev a"
    unfolding r using nb by (subst takeWhile_append2 dropWhile_append2; simp)+
  then show "rsplit_once c s = Some (a, b)"
    using h by (simp add: rsplit_once_def)
qed

text \<open>\<open>s.split(c).next()\<close>: always a value, the part before the first \<open>c\<close>.\<close>

definition split_next :: "char \<Rightarrow> string \<Rightarrow> string" where
  [std_simps]: "split_next c s = takeWhile (\<lambda>x. x \<noteq> c) s"

definition starts_with :: "string \<Rightarrow> string \<Rightarrow> bool" where
  [std_simps]: "starts_with p s = prefix p s"


section \<open>Paths\<close>

text \<open>
  \<open>Path\<close> compares paths by their components: repeated and trailing slashes do not count, and a dot
  counts only at the start of a relative path.
\<close>

fun split_on :: "char \<Rightarrow> string \<Rightarrow> string list" where
  "split_on c [] = [[]]"
| "split_on c (x # xs) =
     (if x = c then [] # split_on c xs
      else case split_on c xs of [] \<Rightarrow> [[x]] | p # ps \<Rightarrow> (x # p) # ps)"

definition path_components :: "string \<Rightarrow> string list" where
  "path_components p =
     (let pieces = split_on CHR ''/'' p;
          normal = filter (\<lambda>q. q \<noteq> [] \<and> q \<noteq> ''.'') pieces
      in if starts_with ''/'' p then ''/'' # normal
         else if hd pieces = ''.'' then ''.'' # normal
         else normal)"

definition path_eq :: "string \<Rightarrow> string \<Rightarrow> bool" where
  "path_eq p q = (path_components p = path_components q)"

lemma split_on_not_Nil [simp]: "split_on c s \<noteq> []"
  by (cases s) (auto split: list.split)

lemma split_on_slash: "split_on c (s @ [c]) = split_on c s @ [[]]"
  by (induction s) (auto split: list.split)

lemma path_eq_refl [simp]: "path_eq p p"
  by (simp add: path_eq_def)

lemma path_eq_trailing_slash:
  assumes "p \<noteq> []"
  shows "path_eq (p @ ''/'') p"
proof -
  have "starts_with ''/'' (p @ ''/'') = starts_with ''/'' p"
    using assms by (cases p) (simp_all add: starts_with_def)
  then show ?thesis by (simp add: path_eq_def path_components_def split_on_slash Let_def)
qed


section \<open>White space\<close>

text \<open>
  \<open>char::is_whitespace\<close> is the Unicode property White\_Space. On the UTF-8 bytes of a string,
  \<open>ws_width\<close> is the number of bytes of the white-space character the string starts with, and
  0 when it starts with any other character.
\<close>

fun ws_width :: "nat list \<Rightarrow> nat" where
  "ws_width [] = 0"
| "ws_width [a] = (if 9 \<le> a \<and> a \<le> 13 \<or> a = 32 then 1 else 0)"
| "ws_width [a, b] =
     (if 9 \<le> a \<and> a \<le> 13 \<or> a = 32 then 1
      else if a = 0xC2 \<and> (b = 0x85 \<or> b = 0xA0) then 2 else 0)"
| "ws_width (a # b # c # _) =
     (if 9 \<le> a \<and> a \<le> 13 \<or> a = 32 then 1
      else if a = 0xC2 \<and> (b = 0x85 \<or> b = 0xA0) then 2
      else if a = 0xE1 \<and> b = 0x9A \<and> c = 0x80
            \<or> a = 0xE2 \<and> b = 0x80 \<and> (0x80 \<le> c \<and> c \<le> 0x8A \<or> c \<in> {0xA8, 0xA9, 0xAF})
            \<or> a = 0xE2 \<and> b = 0x81 \<and> c = 0x9F
            \<or> a = 0xE3 \<and> b = 0x80 \<and> c = 0x80 then 3
      else 0)"

definition ws_at :: "string \<Rightarrow> nat" where
  [std_simps]: "ws_at s = ws_width (map of_char (take 3 s))"

text \<open>\<open>s.chars().any(char::is_whitespace)\<close>: UTF-8 is self-synchronising, so a white-space
  character occurs exactly where some suffix of the bytes starts with one.\<close>

fun any_whitespace :: "string \<Rightarrow> bool" where
  "any_whitespace [] = False"
| "any_whitespace (c # cs) = (0 < ws_at (c # cs) \<or> any_whitespace cs)"

text \<open>\<open>s.trim().is_empty()\<close>.\<close>

function all_whitespace :: "string \<Rightarrow> bool" where
  "all_whitespace [] = True"
| "all_whitespace (c # cs) =
     (0 < ws_at (c # cs) \<and> all_whitespace (drop (ws_at (c # cs) - 1) cs))"
  by pat_completeness auto
termination
  by (relation "measure length") auto

lemma ws_at_Nil [simp]: "ws_at [] = 0"
  by (simp add: ws_at_def)

lemma all_whitespace_head: "all_whitespace s \<Longrightarrow> s \<noteq> [] \<Longrightarrow> 0 < ws_at s"
  by (cases s) auto

lemma ws_at_plain: "33 \<le> (of_char c :: nat) \<Longrightarrow> (of_char c :: nat) < 128 \<Longrightarrow> ws_at (c # cs) = 0"
  by (cases "map of_char (take 3 (c # cs)) :: nat list" rule: ws_width.cases)
     (auto simp: ws_at_def)

lemma all_whitespace_plain:
  "33 \<le> (of_char c :: nat) \<Longrightarrow> (of_char c :: nat) < 128 \<Longrightarrow> \<not> all_whitespace (c # cs)"
  by (simp add: ws_at_plain)


section \<open>UTF-8\<close>

text \<open>
  One step of UTF-8 decoding: the number of bytes it consumes, and whether they are a
  well-formed character. An ill-formed step consumes the maximal prefix of a character, as
  \<open>from_utf8_lossy\<close> does.
\<close>

definition byte_in :: "nat \<Rightarrow> nat \<Rightarrow> nat list \<Rightarrow> nat \<Rightarrow> bool" where
  [std_simps]: "byte_in lo hi bs i = (i < length bs \<and> lo \<le> bs ! i \<and> bs ! i \<le> hi)"

definition utf8_second :: "nat \<Rightarrow> nat \<times> nat" where
  [std_simps]: "utf8_second b =
     (if b = 0xE0 then (0xA0, 0xBF) else if b = 0xED then (0x80, 0x9F)
      else if b = 0xF0 then (0x90, 0xBF) else if b = 0xF4 then (0x80, 0x8F)
      else (0x80, 0xBF))"

definition utf8_step :: "nat list \<Rightarrow> nat \<times> bool" where
  [std_simps]: "utf8_step bs =
     (let b = bs ! 0; (lo, hi) = utf8_second b in
      if b < 0x80 then (1, True)
      else if 0xC2 \<le> b \<and> b \<le> 0xDF then
        (if byte_in 0x80 0xBF bs 1 then (2, True) else (1, False))
      else if 0xE0 \<le> b \<and> b \<le> 0xEF then
        (if \<not> byte_in lo hi bs 1 then (1, False)
         else if \<not> byte_in 0x80 0xBF bs 2 then (2, False) else (3, True))
      else if 0xF0 \<le> b \<and> b \<le> 0xF4 then
        (if \<not> byte_in lo hi bs 1 then (1, False)
         else if \<not> byte_in 0x80 0xBF bs 2 then (2, False)
         else if \<not> byte_in 0x80 0xBF bs 3 then (3, False) else (4, True))
      else (1, False))"

definition utf8_at :: "string \<Rightarrow> nat \<times> bool" where
  [std_simps]: "utf8_at s = utf8_step (map of_char (take 4 s))"

lemma utf8_step_pos: "0 < fst (utf8_step bs)"
  by (simp add: utf8_step_def Let_def split: prod.splits if_splits)

definition replacement_char :: string where
  [std_simps]: "replacement_char = [CHR 0xEF, CHR 0xBF, CHR 0xBD]"

function from_utf8_lossy :: "string \<Rightarrow> string" where
  "from_utf8_lossy [] = []"
| "from_utf8_lossy (c # cs) =
     (case utf8_at (c # cs) of (n, ok) \<Rightarrow>
        (if ok then take n (c # cs) else replacement_char)
        @ from_utf8_lossy (drop (n - 1) cs))"
  by pat_completeness auto
termination
  by (relation "measure length") auto

function utf8_valid :: "string \<Rightarrow> bool" where
  "utf8_valid [] = True"
| "utf8_valid (c # cs) =
     (case utf8_at (c # cs) of (n, ok) \<Rightarrow> ok \<and> utf8_valid (drop (n - 1) cs))"
  by pat_completeness auto
termination
  by (relation "measure length") auto

lemma from_utf8_lossy_valid: "utf8_valid s \<Longrightarrow> from_utf8_lossy s = s"
proof (induction s rule: utf8_valid.induct)
  case 1
  show ?case by simp
next
  case (2 c cs)
  obtain n ok where at: "utf8_at (c # cs) = (n, ok)" by fastforce
  then have n: "0 < n" using utf8_step_pos [of "map of_char (take 4 (c # cs))"]
    by (simp add: utf8_at_def)
  with 2 at have "from_utf8_lossy (drop (n - 1) cs) = drop (n - 1) cs" and "ok"
    by (auto split: prod.splits)
  then have "from_utf8_lossy (c # cs) = take n (c # cs) @ drop (n - 1) cs"
    using at by simp
  moreover have "drop (n - 1) cs = drop n (c # cs)" using n by (cases n) auto
  ultimately show ?case by simp
qed

section \<open>Plain strings\<close>

text \<open>Bytes between 33 and 127: neither white space nor part of a longer UTF-8 character.\<close>

definition plain_char :: "char \<Rightarrow> bool" where
  "plain_char c = (33 \<le> (of_char c :: nat) \<and> (of_char c :: nat) < 128)"

lemma plain_no_whitespace: "\<forall>c \<in> set s. plain_char c \<Longrightarrow> \<not> any_whitespace s"
  by (induction s) (simp_all add: plain_char_def ws_at_plain)

lemma parse_digits_Some_dec: "parse_digits acc s = Some n \<Longrightarrow> c \<in> set s \<Longrightarrow> dec_digit c \<noteq> None"
  by (induction acc s rule: parse_digits.induct) (auto split: option.splits)

lemma parse_uint_chars:
  "parse_uint w s = Some n \<Longrightarrow> c \<in> set s \<Longrightarrow> dec_digit c \<noteq> None \<or> c = CHR ''+''"
  by (auto simp: parse_uint_def strip_plus_def dest!: parse_digits_Some_dec
      split: if_splits option.splits list.splits)

lemma dec_digit_plain: "dec_digit c \<noteq> None \<Longrightarrow> plain_char c"
  by (auto simp: dec_digit_def plain_char_def Let_def split: if_splits)

lemma str_contains_set: "str_contains p s \<Longrightarrow> set p \<subseteq> set s"
  unfolding str_contains_iff by (rule set_mono_sublist)

end
