(* ===== verification/Std_Float.thy ===== *)
theory Std_Float
  imports Std_Str
begin

text \<open>
  The type \<open>f64\<close>: IEEE 754 binary64 with rounding to nearest, ties to even. A finite value is
  the rational number it denotes (the two zeros are one value: the source never looks at the
  sign of a zero), and every operation is the exact rational operation followed by one rounding
  (\<open>rnd\<close>) and the overflow check (\<open>f64_of_rat\<close>).

  The lemmas are the facts about rounding that the token bucket rests on: rounding is monotone,
  leaves representable values alone, and is exact for integers up to 2^53 and for subtracting 1
  from a representable value between 1 and 2^53.
\<close>

datatype f64 = NaN | Infinity | NegInfinity | Fin rat


section \<open>The binary exponent of a rational\<close>

fun nlog2 :: "nat \<Rightarrow> nat" where
  "nlog2 n = (if n < 2 then 0 else Suc (nlog2 (n div 2)))"

declare nlog2.simps [simp del]

lemma nlog2_eval [std_simps]:
  "nlog2 0 = 0" "nlog2 (Suc 0) = 0" "nlog2 1 = 0"
  "nlog2 (numeral k) = (if (numeral k :: nat) < 2 then 0 else Suc (nlog2 (numeral k div 2)))"
  by (subst nlog2.simps, simp)+

lemma nlog2_bounds: "0 < n \<Longrightarrow> 2 ^ nlog2 n \<le> n \<and> n < 2 ^ Suc (nlog2 n)"
proof (induction n rule: nlog2.induct)
  case (1 n)
  show ?case
  proof (cases "n < 2")
    case True
    with 1 show ?thesis by (simp add: nlog2.simps [of n])
  next
    case False
    with 1 have "2 ^ nlog2 (n div 2) \<le> n div 2" "n div 2 < 2 ^ Suc (nlog2 (n div 2))"
      by simp_all
    moreover have "n = 2 * (n div 2) + n mod 2" "n mod 2 < 2" by simp_all
    ultimately have "2 * 2 ^ nlog2 (n div 2) \<le> n \<and> n < 2 * 2 ^ Suc (nlog2 (n div 2))"
      by linarith
    with False show ?thesis by (simp add: nlog2.simps [of n])
  qed
qed

lemma nlog2_int_bounds: "0 < n \<Longrightarrow> 2 ^ nlog2 (nat n) \<le> n \<and> n < 2 ^ Suc (nlog2 (nat n))" for n :: int
proof -
  assume "0 < n"
  then have "int (2 ^ nlog2 (nat n)) \<le> int (nat n)" "int (nat n) < int (2 ^ Suc (nlog2 (nat n)))"
    using nlog2_bounds [of "nat n"] by (simp_all only: of_nat_le_iff of_nat_less_iff zero_less_nat_eq)
  with \<open>0 < n\<close> show ?thesis by simp
qed

definition flog2 :: "rat \<Rightarrow> int" where
  [std_simps]: "flog2 x =
     (case quotient_of x of (n, d) \<Rightarrow>
        let k = int (nlog2 (nat n)) - int (nlog2 (nat d)) in
        if 2 powi k \<le> x then k else k - 1)"

lemma powi2_pos [simp]: "0 < (2::rat) powi k"
  by (rule zero_less_power_int) simp

lemma powi2_nonzero [simp]: "(2::rat) powi k \<noteq> 0"
  using powi2_pos [of k] by linarith

lemma powi2_Suc: "(2::rat) powi (k + 1) = 2 * 2 powi k"
  by (simp add: power_int_add_1')

lemma powi2_le_iff [simp]: "(2::rat) powi j \<le> 2 powi k \<longleftrightarrow> j \<le> k"
proof
  assume "(2::rat) powi j \<le> 2 powi k"
  then show "j \<le> k"
    using power_int_strict_increasing [of k j "2::rat"] by (metis leD not_le one_less_numeral_iff semiring_norm(76))
qed (simp add: power_int_increasing)

lemma powi2_less_iff [simp]: "(2::rat) powi j < 2 powi k \<longleftrightarrow> j < k"
  by (metis powi2_le_iff not_le)

lemma flog2_bounds:
  assumes "0 < x"
  shows "2 powi flog2 x \<le> x" and "x < 2 powi (flog2 x + 1)"
proof -
  obtain n d where q: "quotient_of x = (n, d)" by fastforce
  then have d: "0 < d" and x: "x = of_int n / of_int d"
    by (auto dest: quotient_of_denom_pos quotient_of_div)
  with assms have n: "0 < n" by (simp add: zero_less_divide_iff)
  define a b where "a = nlog2 (nat n)" and "b = nlog2 (nat d)"
  have "2 ^ a \<le> n \<and> n < 2 ^ Suc a" "2 ^ b \<le> d \<and> d < 2 ^ Suc b"
    using n d nlog2_int_bounds unfolding a_def b_def by blast+
  then have nd: "(2::rat) ^ a \<le> of_int n" "(of_int n::rat) < 2 ^ Suc a"
    "(2::rat) ^ b \<le> of_int d" "(of_int d::rat) < 2 ^ Suc b"
    by (metis of_int_le_iff of_int_less_iff of_int_numeral of_int_power)+
  let ?k = "int a - int b"
  have dp: "(0::rat) < of_int d" using d by simp
  have "(2::rat) powi (?k - 1) * of_int d \<le> 2 powi (?k - 1) * 2 ^ Suc b"
    using nd(4) by (intro mult_left_mono) auto
  also have "\<dots> = 2 powi (?k - 1) * 2 powi int (Suc b)" by (simp only: power_int_of_nat)
  also have "\<dots> = 2 powi int a"
    by (subst power_int_add [symmetric]) auto
  also have "\<dots> = 2 ^ a" by simp
  also have "\<dots> \<le> of_int n" by (rule nd(1))
  finally have lo: "(2::rat) powi (?k - 1) \<le> x"
    using dp by (simp add: x le_divide_eq)
  have "of_int n < (2::rat) ^ Suc a" by (rule nd(2))
  also have "(2::rat) ^ Suc a = 2 powi int (Suc a)" by (simp only: power_int_of_nat)
  also have "\<dots> = 2 powi (?k + 1) * 2 powi int b"
    by (subst power_int_add [symmetric]) (auto simp: add.commute)
  also have "\<dots> = 2 powi (?k + 1) * 2 ^ b" by simp
  also have "\<dots> \<le> 2 powi (?k + 1) * of_int d"
    using nd(3) by (intro mult_left_mono) auto
  finally have hi: "x < 2 powi (?k + 1)"
    using dp by (simp add: x divide_less_eq)
  show "2 powi flog2 x \<le> x" and "x < 2 powi (flog2 x + 1)"
    using lo hi by (simp_all add: flog2_def q Let_def a_def b_def)
qed

lemma flog2_mono: "0 < x \<Longrightarrow> x \<le> y \<Longrightarrow> flog2 x \<le> flog2 y"
proof -
  assume "0 < x" and "x \<le> y"
  then have "(2::rat) powi flog2 x < 2 powi (flog2 y + 1)"
    using flog2_bounds(1) [of x] flog2_bounds(2) [of y] by linarith
  then show ?thesis by simp
qed

lemma flog2_less: "0 < x \<Longrightarrow> x < 2 powi k \<Longrightarrow> flog2 x < k"
  using flog2_bounds(1) [of x] by (metis le_less_trans powi2_less_iff)


section \<open>Rounding to nearest, ties to even\<close>

definition round_even :: "rat \<Rightarrow> int" where
  [std_simps]: "round_even y =
     (let f = \<lfloor>y\<rfloor>; r = y - of_int f in
      if r < 1 / 2 then f else if 1 / 2 < r then f + 1 else if even f then f else f + 1)"

lemma round_even_of_int [simp]: "round_even (of_int k) = k"
  by (simp add: round_even_def)

lemma round_even_bounds: "\<lfloor>y\<rfloor> \<le> round_even y" "round_even y \<le> \<lfloor>y\<rfloor> + 1"
  by (simp_all add: round_even_def Let_def)

lemma round_even_mono: "x \<le> y \<Longrightarrow> round_even x \<le> round_even y"
proof -
  assume xy: "x \<le> y"
  then have fl: "\<lfloor>x\<rfloor> \<le> \<lfloor>y\<rfloor>" by (rule floor_mono)
  show ?thesis
  proof (cases "\<lfloor>x\<rfloor> = \<lfloor>y\<rfloor>")
    case True
    with xy show ?thesis by (auto simp: round_even_def Let_def)
  next
    case False
    with fl have "\<lfloor>x\<rfloor> + 1 \<le> \<lfloor>y\<rfloor>" by simp
    then show ?thesis using round_even_bounds(2) [of x] round_even_bounds(1) [of y] by linarith
  qed
qed

lemma round_even_nonneg: "0 \<le> y \<Longrightarrow> 0 \<le> round_even y"
  using round_even_mono [of 0 y] round_even_of_int [of 0] by simp

lemma round_even_error: "\<bar>of_int (round_even y) - y\<bar> \<le> 1 / 2"
proof -
  have "of_int \<lfloor>y\<rfloor> \<le> y" "y < of_int \<lfloor>y\<rfloor> + 1" by linarith+
  then show ?thesis
    unfolding round_even_def Let_def abs_if by (simp split: if_split; linarith)
qed

text \<open>The distance between neighbouring values near \<open>x\<close>: 53 significant bits, and no finer than
  the least subnormal 2^-1074.\<close>

definition quantum :: "rat \<Rightarrow> int" where
  [std_simps]: "quantum x = max (flog2 x - 52) (- 1074)"

definition round_pos :: "rat \<Rightarrow> rat" where
  [std_simps]: "round_pos x = of_int (round_even (x / 2 powi quantum x)) * 2 powi quantum x"

definition rnd :: "rat \<Rightarrow> rat" where
  [std_simps]: "rnd x = (if x = 0 then 0 else if 0 < x then round_pos x else - round_pos (- x))"

text \<open>The overflow threshold: a rounded value from 2^1024 on is an infinity.\<close>

definition f64_limit :: rat where
  "f64_limit = 2 ^ 1024"

definition f64_of_rat :: "rat \<Rightarrow> f64" where
  [std_simps]: "f64_of_rat x =
     (let r = rnd x in
      if f64_limit \<le> r then Infinity else if r \<le> - f64_limit then NegInfinity else Fin r)"

lemma rnd_0 [simp]: "rnd 0 = 0"
  by (simp add: rnd_def)

lemma rnd_nonneg: "0 \<le> x \<Longrightarrow> 0 \<le> rnd x"
  by (auto simp: rnd_def round_pos_def intro!: mult_nonneg_nonneg round_even_nonneg divide_nonneg_pos)

lemma rnd_grid:
  assumes "x = of_int k * 2 powi q" and "0 \<le> k" and "k \<le> 2 ^ 53" and "- 1074 \<le> q"
  shows "rnd x = x"
proof -
  have main: "rnd (of_int k * 2 powi q) = of_int k * 2 powi q"
    if k: "0 < k" "k < 2 ^ 53" and q: "- 1074 \<le> q" for k q
  proof -
    let ?x = "of_int k * 2 powi q :: rat"
    have pos: "0 < ?x" using k by simp
    have "(of_int k :: rat) < of_int (2 ^ 53)" using k(2) by (simp only: of_int_less_iff)
    then have "?x < 2 ^ 53 * 2 powi q" by (intro mult_strict_right_mono) simp_all
    also have "\<dots> = 2 powi 53 * 2 powi q" by simp
    also have "\<dots> = 2 powi (53 + q)" by (simp add: power_int_add)
    finally have "flog2 ?x < 53 + q" by (rule flog2_less [OF pos])
    then have qq: "quantum ?x \<le> q" using q by (simp add: quantum_def)
    let ?m = "quantum ?x"
    have "(2::rat) powi q = 2 powi (q - ?m) * 2 powi ?m"
      by (subst power_int_add [symmetric]) auto
    also have "(2::rat) powi (q - ?m) = of_int (2 ^ nat (q - ?m))"
      using qq by (simp add: power_int_nonneg_exp)
    finally have e: "?x = of_int (k * 2 ^ nat (q - ?m)) * 2 powi ?m" by simp
    then have "?x / 2 powi ?m = of_int (k * 2 ^ nat (q - ?m))" by (simp add: field_simps)
    then have "round_pos ?x = ?x" unfolding round_pos_def using e
      by (simp only: round_even_of_int)
    then show ?thesis using pos by (simp add: rnd_def)
  qed
  show ?thesis
  proof (cases "k = 0 \<or> k = 2 ^ 53")
    case False
    then show ?thesis using assms main [of k q] by auto
  next
    case True
    then consider "k = 0" | "k = 2 ^ 53" by blast
    then show ?thesis
    proof cases
      case 1
      with assms(1) show ?thesis by simp
    next
      case 2
      have "x = of_int (2 ^ 52) * 2 powi (q + 1)"
        using assms(1) 2 by (simp add: powi2_Suc)
      then show ?thesis using main [of "2 ^ 52" "q + 1"] assms(4) by simp
    qed
  qed
qed

lemma rnd_of_nat: "n \<le> 2 ^ 53 \<Longrightarrow> rnd (of_nat n) = of_nat n"
  by (rule rnd_grid [of _ "int n" 0]) simp_all

lemma rnd_of_int: "0 \<le> n \<Longrightarrow> n \<le> 2 ^ 53 \<Longrightarrow> rnd (of_int n) = of_int n"
  by (rule rnd_grid [of _ n 0]) simp_all

lemma rnd_1 [simp]: "rnd 1 = 1"
  using rnd_of_nat [of 1] by simp

lemma rnd_powi2: "- 1074 \<le> k \<Longrightarrow> rnd (2 powi k) = 2 powi k"
  by (rule rnd_grid [of _ 1 k]) simp_all

text \<open>Every rounded value lies on the grid, so rounding twice is rounding once.\<close>

lemma rnd_pos_grid:
  assumes "0 < x"
  obtains k where "rnd x = of_int k * 2 powi quantum x" "0 \<le> k" "k \<le> 2 ^ 53" "- 1074 \<le> quantum x"
    "k = round_even (x / 2 powi quantum x)"
proof
  let ?q = "quantum x" and ?k = "round_even (x / 2 powi quantum x)"
  show "rnd x = of_int ?k * 2 powi ?q" using assms by (simp add: rnd_def round_pos_def)
  show "0 \<le> ?k" using assms by (intro round_even_nonneg) simp
  show "- 1074 \<le> ?q" by (simp add: quantum_def)
  have "x < 2 powi (flog2 x + 1)" using assms by (rule flog2_bounds)
  also have "\<dots> \<le> 2 powi (53 + ?q)" by (simp add: quantum_def)
  also have "\<dots> = 2 powi 53 * 2 powi ?q" by (subst power_int_add) simp_all
  finally have "x / 2 powi ?q \<le> of_int (2 ^ 53)" by (simp add: divide_le_eq)
  then show "?k \<le> 2 ^ 53" using round_even_mono round_even_of_int by metis
qed simp

lemma rnd_idem: "0 \<le> x \<Longrightarrow> rnd (rnd x) = rnd x"
proof (cases "x = 0")
  case False
  assume "0 \<le> x"
  with False have "0 < x" by simp
  then show ?thesis by (rule rnd_pos_grid) (rule rnd_grid)
qed simp

lemma rnd_le_grid:
  assumes "0 < x" and "x \<le> of_int m * 2 powi quantum x"
  shows "rnd x \<le> of_int m * 2 powi quantum x"
proof -
  obtain k where k: "rnd x = of_int k * 2 powi quantum x" "k = round_even (x / 2 powi quantum x)"
    using assms(1) by (rule rnd_pos_grid) blast
  have "x / 2 powi quantum x \<le> of_int m" using assms(2) by (simp add: divide_le_eq)
  then have "k \<le> m" unfolding k(2) using round_even_mono round_even_of_int by metis
  then show ?thesis unfolding k(1) by (intro mult_right_mono) simp_all
qed

lemma rnd_ge_grid:
  assumes "0 < x" and "of_int m * 2 powi quantum x \<le> x"
  shows "of_int m * 2 powi quantum x \<le> rnd x"
proof -
  obtain k where k: "rnd x = of_int k * 2 powi quantum x" "k = round_even (x / 2 powi quantum x)"
    using assms(1) by (rule rnd_pos_grid) blast
  have "of_int m \<le> x / 2 powi quantum x" using assms(2) by (simp add: le_divide_eq)
  then have "m \<le> k" unfolding k(2) using round_even_mono round_even_of_int by metis
  then show ?thesis unfolding k(1) by (intro mult_right_mono) simp_all
qed

lemma powi2_on_grid: "q \<le> j \<Longrightarrow> (2::rat) powi j = of_int (2 ^ nat (j - q)) * 2 powi q"
proof -
  assume "q \<le> j"
  then have "of_int (2 ^ nat (j - q)) = (2::rat) powi (j - q)"
    by (simp add: power_int_nonneg_exp)
  then show ?thesis by (simp flip: power_int_add)
qed

lemma rnd_mono:
  assumes "0 \<le> x" and "x \<le> y"
  shows "rnd x \<le> rnd y"
proof (cases "x = 0")
  case True
  with assms show ?thesis by (simp add: rnd_nonneg)
next
  case False
  with assms have x: "0 < x" and y: "0 < y" by simp_all
  show ?thesis
  proof (cases "quantum x = quantum y")
    case True
    have "x / 2 powi quantum x \<le> y / 2 powi quantum x" using assms by (simp add: divide_right_mono)
    then have "round_even (x / 2 powi quantum x) \<le> round_even (y / 2 powi quantum y)"
      using True by (simp add: round_even_mono)
    then show ?thesis using x y True
      by (simp add: rnd_def round_pos_def mult_right_mono)
  next
    case False
    then have lt: "flog2 x < flog2 y" "quantum y = flog2 y - 52"
      using flog2_mono [OF x assms(2)] by (auto simp: quantum_def max_def split: if_splits)
    have qx: "quantum x \<le> flog2 y" "quantum y \<le> flog2 y"
      using lt flog2_mono [OF x assms(2)] by (auto simp: quantum_def)
    have "x \<le> 2 powi flog2 y"
      using flog2_bounds(2) [OF x] lt(1) powi2_le_iff [of "flog2 x + 1" "flog2 y"] by linarith
    then have "rnd x \<le> 2 powi flog2 y"
      using rnd_le_grid [OF x] powi2_on_grid [OF qx(1)] by metis
    also have "2 powi flog2 y \<le> rnd y"
      using flog2_bounds(1) [OF y] rnd_ge_grid [OF y] powi2_on_grid [OF qx(2)] by metis
    finally show ?thesis .
  qed
qed

text \<open>Subtracting 1 from a representable value between 1 and 2^53 is exact.\<close>

lemma rnd_minus_1:
  assumes "rnd x = x" and "1 \<le> x" and "x \<le> 2 ^ 53"
  shows "rnd (x - 1) = x - 1"
proof (cases "x = 2 ^ 53")
  case True
  then have "x - 1 = of_nat (2 ^ 53 - 1)" by simp
  then show ?thesis by (metis rnd_of_nat diff_le_self)
next
  case False
  have x: "0 < x" using assms(2) by simp
  have "x < 2 powi 53" using False assms(3) by simp
  then have "flog2 x < 53" by (rule flog2_less [OF x])
  then have q: "quantum x \<le> 0" by (simp add: quantum_def)
  obtain k where k: "rnd x = of_int k * 2 powi quantum x" "0 \<le> k" "k \<le> 2 ^ 53" "- 1074 \<le> quantum x"
    using x by (rule rnd_pos_grid)
  let ?d = "2 ^ nat (- quantum x) :: int"
  have one: "(1::rat) = of_int ?d * 2 powi quantum x"
    using powi2_on_grid [OF q] by simp
  have "x - 1 = of_int k * 2 powi quantum x - of_int ?d * 2 powi quantum x"
    using k(1) one assms(1) by simp
  then have e: "x - 1 = of_int (k - ?d) * 2 powi quantum x" by (simp add: left_diff_distrib)
  have "0 \<le> of_int (k - ?d) * (2::rat) powi quantum x" using e assms(2) by simp
  then have "(0::rat) \<le> of_int (k - ?d)" using powi2_pos [of "quantum x"]
    by (simp add: zero_le_mult_iff)
  then have "0 \<le> k - ?d" by (simp only: of_int_0_le_iff)
  moreover have "k - ?d \<le> 2 ^ 53" using k(3) by (smt (verit) zero_le_power)
  ultimately show ?thesis using e k(4) by (intro rnd_grid) auto
qed


section \<open>Rounding errors\<close>

text \<open>A rounding errs by at most half a unit in the last place of a normal value, and by half the
  least subnormal below the normal range.\<close>

definition half_ulp :: rat where
  "half_ulp = 1 / 2 ^ 53"

definition half_subnormal :: rat where
  "half_subnormal = 2 powi - 1075"

lemma half_ulp_powi: "half_ulp = 2 powi - 53"
  unfolding half_ulp_def by (simp only: power_int_minus power_int_numeral divide_inverse mult_1)

lemma half_subnormal_bounds: "0 < half_subnormal" "2 * half_subnormal \<le> half_ulp"
proof -
  show "0 < half_subnormal" unfolding half_subnormal_def by (rule powi2_pos)
  have "2 * half_subnormal = 2 powi (- 1075 + 1)"
    unfolding half_subnormal_def by (rule powi2_Suc [symmetric])
  also have "\<dots> \<le> 2 powi - 53" by (simp only: powi2_le_iff)
  finally show "2 * half_subnormal \<le> half_ulp" by (simp add: half_ulp_powi)
qed

lemma half_ulp_pos: "0 < half_ulp"
  by (simp add: half_ulp_def)

lemma rnd_error_quantum:
  assumes "0 < x"
  shows "\<bar>rnd x - x\<bar> \<le> 2 powi (quantum x - 1)"
proof -
  let ?p = "2 powi quantum x :: rat"
  have "rnd x - x = (of_int (round_even (x / ?p)) - x / ?p) * ?p"
    using assms by (simp add: rnd_def round_pos_def left_diff_distrib)
  then have "\<bar>rnd x - x\<bar> = \<bar>of_int (round_even (x / ?p)) - x / ?p\<bar> * ?p"
    by (simp add: abs_mult)
  also have "\<dots> \<le> 1 / 2 * ?p" by (intro mult_right_mono round_even_error) simp
  also have "\<dots> = 2 powi (quantum x - 1)" using powi2_Suc [of "quantum x - 1"] by simp
  finally show ?thesis .
qed

lemma ulp_below: "0 < x \<Longrightarrow> 2 powi (flog2 x - 52 - 1) \<le> half_ulp * x"
proof -
  assume "0 < x"
  have "2 powi (flog2 x - 52 - 1) = half_ulp * 2 powi flog2 x"
    unfolding half_ulp_powi by (subst power_int_add [symmetric]) (simp_all add: algebra_simps)
  also have "\<dots> \<le> half_ulp * x"
    using \<open>0 < x\<close> half_ulp_pos by (intro mult_left_mono flog2_bounds) simp_all
  finally show ?thesis .
qed

lemma rnd_error:
  assumes "0 \<le> x"
  shows "\<bar>rnd x - x\<bar> \<le> half_ulp * x + half_subnormal"
proof (cases "x = 0")
  case True
  then show ?thesis using half_subnormal_bounds(1) by simp
next
  case False
  with assms have x: "0 < x" by simp
  have "quantum x - 1 = flog2 x - 52 - 1 \<or> quantum x - 1 = - 1075"
    by (simp add: quantum_def max_def)
  then have "2 powi (quantum x - 1) = (2 powi (flog2 x - 52 - 1) :: rat) \<or>
      2 powi (quantum x - 1) = half_subnormal"
    unfolding half_subnormal_def by metis
  moreover have "0 \<le> half_ulp * x" using x half_ulp_pos by simp
  ultimately have "2 powi (quantum x - 1) \<le> half_ulp * x + half_subnormal"
    using ulp_below [OF x] half_subnormal_bounds(1) by linarith
  then show ?thesis using rnd_error_quantum [OF x] by linarith
qed

lemma rnd_error_normal:
  assumes "2 powi - 1022 \<le> x"
  shows "\<bar>rnd x - x\<bar> \<le> half_ulp * x"
proof -
  have x: "0 < x" using assms powi2_pos [of "- 1022"] by linarith
  have "(2::rat) powi - 1022 < 2 powi (flog2 x + 1)"
    using assms flog2_bounds(2) [OF x] by (rule le_less_trans)
  then have "- 1022 < flog2 x + 1" by (simp only: powi2_less_iff)
  then have "quantum x = flog2 x - 52" by (simp add: quantum_def)
  then show ?thesis using rnd_error_quantum [OF x] ulp_below [OF x] by simp
qed

text \<open>Zero or a normal value.\<close>

definition zero_or_normal :: "rat \<Rightarrow> bool" where
  "zero_or_normal x = (x = 0 \<or> 2 powi - 1022 \<le> x)"

lemma zero_or_normal_nonneg: "zero_or_normal x \<Longrightarrow> 0 \<le> x"
  unfolding zero_or_normal_def using powi2_pos [of "- 1022"] by linarith

lemma zero_or_normal_add: "zero_or_normal x \<Longrightarrow> zero_or_normal y \<Longrightarrow> zero_or_normal (x + y)"
  using zero_or_normal_nonneg [of x] zero_or_normal_nonneg [of y]
  unfolding zero_or_normal_def by linarith

lemma zero_or_normal_rnd: "zero_or_normal x \<Longrightarrow> zero_or_normal (rnd x)"
proof -
  have n: "rnd (2 powi - 1022) = 2 powi - 1022" by (rule rnd_powi2) simp
  have "2 powi - 1022 \<le> rnd x" if "2 powi - 1022 \<le> x"
    using rnd_mono [OF less_imp_le [OF powi2_pos] that] n by metis
  then show "zero_or_normal x \<Longrightarrow> zero_or_normal (rnd x)"
    unfolding zero_or_normal_def by (metis rnd_0)
qed

lemma rnd_upper: "zero_or_normal x \<Longrightarrow> rnd x \<le> (1 + half_ulp) * x"
  using rnd_error_normal [of x] unfolding zero_or_normal_def distrib_right
  by (elim disjE) (simp, linarith)

lemma rnd_lower: "zero_or_normal x \<Longrightarrow> (1 - half_ulp) * x \<le> rnd x"
  using rnd_error_normal [of x] unfolding zero_or_normal_def left_diff_distrib
  by (elim disjE) (simp, linarith)



section \<open>Operations and comparisons\<close>

fun f64_add :: "f64 \<Rightarrow> f64 \<Rightarrow> f64" where
  "f64_add (Fin x) (Fin y) = f64_of_rat (x + y)"
| "f64_add NaN _ = NaN"
| "f64_add _ NaN = NaN"
| "f64_add Infinity NegInfinity = NaN"
| "f64_add NegInfinity Infinity = NaN"
| "f64_add Infinity _ = Infinity"
| "f64_add NegInfinity _ = NegInfinity"
| "f64_add _ y = y"

fun f64_neg :: "f64 \<Rightarrow> f64" where
  "f64_neg NaN = NaN"
| "f64_neg Infinity = NegInfinity"
| "f64_neg NegInfinity = Infinity"
| "f64_neg (Fin x) = Fin (- x)"

definition f64_sub :: "f64 \<Rightarrow> f64 \<Rightarrow> f64" where
  [std_simps]: "f64_sub x y = f64_add x (f64_neg y)"

definition inf_times :: "rat \<Rightarrow> f64" where
  [std_simps]: "inf_times x = (if x = 0 then NaN else if 0 < x then Infinity else NegInfinity)"

fun f64_mul :: "f64 \<Rightarrow> f64 \<Rightarrow> f64" where
  "f64_mul (Fin x) (Fin y) = f64_of_rat (x * y)"
| "f64_mul NaN _ = NaN"
| "f64_mul _ NaN = NaN"
| "f64_mul Infinity (Fin y) = inf_times y"
| "f64_mul (Fin x) Infinity = inf_times x"
| "f64_mul NegInfinity (Fin y) = f64_neg (inf_times y)"
| "f64_mul (Fin x) NegInfinity = f64_neg (inf_times x)"
| "f64_mul Infinity y = y"
| "f64_mul NegInfinity y = f64_neg y"

fun f64_less :: "f64 \<Rightarrow> f64 \<Rightarrow> bool" where
  "f64_less NaN _ = False"
| "f64_less _ NaN = False"
| "f64_less (Fin x) (Fin y) = (x < y)"
| "f64_less Infinity _ = False"
| "f64_less _ Infinity = True"
| "f64_less _ NegInfinity = False"
| "f64_less NegInfinity _ = True"

fun f64_le :: "f64 \<Rightarrow> f64 \<Rightarrow> bool" where
  "f64_le NaN _ = False"
| "f64_le _ NaN = False"
| "f64_le (Fin x) (Fin y) = (x \<le> y)"
| "f64_le NegInfinity _ = True"
| "f64_le _ Infinity = True"
| "f64_le _ _ = False"

text \<open>\<open>f64::min\<close>: a NaN loses against a number.\<close>

definition f64_min :: "f64 \<Rightarrow> f64 \<Rightarrow> f64" where
  [std_simps]: "f64_min x y = (if x = NaN then y else if y = NaN then x else if f64_less y x then y else x)"

definition f64_is_finite :: "f64 \<Rightarrow> bool" where
  [std_simps]: "f64_is_finite x = (case x of Fin _ \<Rightarrow> True | _ \<Rightarrow> False)"

text \<open>\<open>n as f64\<close> for an unsigned \<open>n\<close>.\<close>

definition f64_of_nat :: "nat \<Rightarrow> f64" where
  [std_simps]: "f64_of_nat n = f64_of_rat (of_nat n)"

lemma f64_limit_pos: "0 < f64_limit"
  by (simp add: f64_limit_def)

lemma f64_of_rat_0 [simp]: "f64_of_rat 0 = Fin 0"
  using f64_limit_pos by (simp add: f64_of_rat_def Let_def not_le)

lemma f64_of_rat_small: "0 \<le> x \<Longrightarrow> rnd x < f64_limit \<Longrightarrow> f64_of_rat x = Fin (rnd x)"
  using rnd_nonneg [of x] f64_limit_pos by (simp add: f64_of_rat_def Let_def)

lemma f64_of_rat_cases:
  assumes "0 \<le> x"
  obtains "f64_of_rat x = Infinity" "f64_limit \<le> rnd x" | "f64_of_rat x = Fin (rnd x)" "rnd x < f64_limit"
  using assms rnd_nonneg [of x] f64_limit_pos
  by (cases "f64_limit \<le> rnd x") (auto simp: f64_of_rat_def Let_def)

lemma two_pow_exact_le: "2 ^ 53 < f64_limit"
  unfolding f64_limit_def by (rule power_strict_increasing) simp_all

lemma f64_of_nat_exact: "n \<le> 2 ^ 53 \<Longrightarrow> f64_of_nat n = Fin (of_nat n)"
proof -
  assume n: "n \<le> 2 ^ 53"
  then have "(of_nat n :: rat) \<le> of_nat (2 ^ 53)" by (simp only: of_nat_le_iff)
  then have "(of_nat n :: rat) < f64_limit"
    using two_pow_exact_le by simp
  then show ?thesis using n by (simp add: f64_of_nat_def f64_of_rat_small rnd_of_nat)
qed

text \<open>The order on non-negative values, infinity included: every operation the token bucket
  uses is monotone in it.\<close>

definition f64_nonneg :: "f64 \<Rightarrow> bool" where
  "f64_nonneg x = f64_le (Fin 0) x"

lemma f64_nonneg_cases [elim!]:
  assumes "f64_nonneg x"
  obtains "x = Infinity" | a where "x = Fin a" "0 \<le> a"
  using assms by (cases x) (auto simp: f64_nonneg_def)

lemma f64_nonneg_simps [simp]:
  "f64_nonneg Infinity" "\<not> f64_nonneg NaN" "\<not> f64_nonneg NegInfinity"
  "f64_nonneg (Fin a) \<longleftrightarrow> 0 \<le> a"
  by (simp_all add: f64_nonneg_def)

lemma f64_le_refl: "f64_nonneg x \<Longrightarrow> f64_le x x"
  by auto

lemma f64_le_trans: "f64_le x y \<Longrightarrow> f64_le y z \<Longrightarrow> f64_le x z"
  by (cases x; cases y; cases z) auto

lemma f64_less_iff_not_le: "x \<noteq> NaN \<Longrightarrow> y \<noteq> NaN \<Longrightarrow> f64_less x y \<longleftrightarrow> \<not> f64_le y x"
  by (cases x; cases y) auto

lemma f64_not_less_le: "f64_nonneg x \<Longrightarrow> f64_nonneg y \<Longrightarrow> \<not> f64_less x y \<Longrightarrow> f64_le y x"
  by auto

lemma f64_of_rat_nonneg: "0 \<le> x \<Longrightarrow> f64_nonneg (f64_of_rat x)"
  by (rule f64_of_rat_cases) (auto simp: rnd_nonneg)

lemma f64_of_rat_mono: "0 \<le> x \<Longrightarrow> x \<le> y \<Longrightarrow> f64_le (f64_of_rat x) (f64_of_rat y)"
  using rnd_mono [of x y]
  by (rule_tac x = x in f64_of_rat_cases; rule_tac x = y in f64_of_rat_cases) auto

lemma f64_of_rat_le_Infinity [simp]: "f64_le (f64_of_rat x) Infinity"
  by (simp add: f64_of_rat_def Let_def)

lemma f64_of_nat_mono: "m \<le> n \<Longrightarrow> f64_le (f64_of_nat m) (f64_of_nat n)"
  by (simp add: f64_of_nat_def f64_of_rat_mono)

lemma f64_of_nat_nonneg: "f64_nonneg (f64_of_nat n)"
  by (simp add: f64_of_nat_def f64_of_rat_nonneg)

lemma f64_add_nonneg: "f64_nonneg x \<Longrightarrow> f64_nonneg y \<Longrightarrow> f64_nonneg (f64_add x y)"
  by (auto simp: f64_of_rat_nonneg)

lemma f64_add_mono:
  assumes "f64_nonneg x" "f64_nonneg y" "f64_le x x'" "f64_le y y'"
  shows "f64_le (f64_add x y) (f64_add x' y')"
  using assms by (cases x; cases y; cases x'; cases y') (auto intro!: f64_of_rat_mono)

lemma f64_mul_nonneg: "f64_nonneg x \<Longrightarrow> 0 < r \<Longrightarrow> f64_nonneg (f64_mul x (Fin r))"
  by (auto simp: f64_of_rat_nonneg inf_times_def)

lemma f64_mul_mono:
  assumes "f64_nonneg x" "f64_le x x'" "0 < r"
  shows "f64_le (f64_mul x (Fin r)) (f64_mul x' (Fin r))"
  using assms by (cases x; cases x')
    (auto intro!: f64_of_rat_mono simp: inf_times_def mult_right_mono)

lemma f64_min_le: "f64_nonneg x \<Longrightarrow> f64_nonneg y \<Longrightarrow> f64_le (f64_min x y) y"
  by (cases x; cases y) (auto simp: f64_min_def)

lemma f64_min_nonneg: "f64_nonneg x \<Longrightarrow> f64_nonneg y \<Longrightarrow> f64_nonneg (f64_min x y)"
  by (auto simp: f64_min_def)

lemma f64_min_absorb: "f64_le y x \<Longrightarrow> f64_min x y = y"
  by (cases x; cases y) (auto simp: f64_min_def)

lemma f64_min_left: "f64_le x y \<Longrightarrow> f64_min x y = x"
  by (cases x; cases y) (auto simp: f64_min_def)

lemma f64_min_mono:
  "f64_nonneg x \<Longrightarrow> f64_nonneg c \<Longrightarrow> f64_le x x' \<Longrightarrow> f64_le (f64_min x c) (f64_min x' c)"
  by (cases x; cases c; cases x') (auto simp: f64_min_def)

end
