(* ===== verification/Std_Time.thy ===== *)
theory Std_Time
  imports Std_Float
begin

text \<open>
  \<open>std::time\<close>: a \<open>Duration\<close> is its number of nanoseconds (at most \<open>DURATION_MAX\<close>), an \<open>Instant\<close> a
  number of nanoseconds since an arbitrary origin. Then the textual forms of an \<open>f64\<close>: the
  formatting \<open>{:.3}\<close> and \<open>str::parse::<f64>\<close>.

  The lemmas show that \<open>Duration::as_secs_f64\<close> is monotone in spite of its roundings, and bound
  its error.
\<close>

type_synonym duration = nat
type_synonym instant = nat

definition NANOS_PER_SEC :: nat where
  [std_simps]: "NANOS_PER_SEC = 1000000000"

definition DURATION_MAX :: duration where
  [std_simps]: "DURATION_MAX = (2 ^ 64 - 1) * NANOS_PER_SEC + 999999999"

definition dur_from_secs :: "nat \<Rightarrow> duration" where
  [std_simps]: "dur_from_secs s = s * NANOS_PER_SEC"

definition dur_from_millis :: "nat \<Rightarrow> duration" where
  [std_simps]: "dur_from_millis m = m * 1000000"

definition dur_checked_mul :: "duration \<Rightarrow> nat \<Rightarrow> duration option" where
  [std_simps]: "dur_checked_mul d k = (if d * k \<le> DURATION_MAX then Some (d * k) else None)"

definition dur_as_millis :: "duration \<Rightarrow> nat" where
  [std_simps]: "dur_as_millis d = d div 1000000"

text \<open>\<open>Duration::as_secs_f64\<close>: whole seconds and the fraction are rounded separately, and then
  their sum.\<close>

definition as_secs_f64 :: "duration \<Rightarrow> f64" where
  [std_simps]: "as_secs_f64 d =
     f64_add (f64_of_nat (d div NANOS_PER_SEC))
             (f64_of_rat (of_nat (d mod NANOS_PER_SEC) / of_nat NANOS_PER_SEC))"

text \<open>\<open>Instant::saturating_duration_since\<close>.\<close>

definition saturating_duration_since :: "instant \<Rightarrow> instant \<Rightarrow> duration" where
  "saturating_duration_since now earlier = now - earlier"

lemma saturating_duration_since_self [simp]: "saturating_duration_since t t = 0"
  by (simp add: saturating_duration_since_def)

lemma saturating_duration_since_mono:
  "t \<le> t' \<Longrightarrow> saturating_duration_since t e \<le> saturating_duration_since t' e"
  by (simp add: saturating_duration_since_def)


section \<open>Seconds as a float are monotone\<close>

lemma flog2_unique: "2 powi k \<le> x \<Longrightarrow> x < 2 powi (k + 1) \<Longrightarrow> flog2 x = k"
proof -
  assume lo: "2 powi k \<le> x" and hi: "x < 2 powi (k + 1)"
  then have x: "0 < x" using powi2_pos [of k] by linarith
  have "flog2 x < k + 1" using x hi by (rule flog2_less)
  moreover have "k < flog2 x + 1"
    using lo flog2_bounds(2) [OF x] by (metis le_less_trans powi2_less_iff)
  ultimately show ?thesis by simp
qed

text \<open>From 2^53 on, neighbouring floats are at least 2 apart, and a fraction below 1 is lost.\<close>

lemma rnd_absorb:
  assumes r: "rnd R = R" and big: "2 ^ 53 \<le> R" and d: "0 \<le> d" "d < 1"
  shows "rnd (R + d) = R"
proof -
  have R: "0 < R" using big by (smt (verit) zero_less_power zero_less_numeral less_le_trans)
  define q where "q = quantum R"
  obtain m where m: "rnd R = of_int m * 2 powi quantum R"
    using R by (rule rnd_pos_grid)
  have Rm: "R = of_int m * 2 powi q" using m r by (simp add: q_def)
  have "(2::rat) powi 53 < 2 powi (flog2 R + 1)"
    using big flog2_bounds(2) [OF R] by simp
  then have f: "53 \<le> flog2 R" by (simp only: powi2_less_iff)
  then have q: "q = flog2 R - 52" "1 \<le> q" by (simp_all add: q_def quantum_def)
  have top: "(2::rat) powi (flog2 R + 1) = of_int (2 ^ 53) * 2 powi q"
    using powi2_on_grid [of q "flog2 R + 1"] q(1) by simp
  then have "of_int m * 2 powi q < of_int (2 ^ 53) * (2::rat) powi q"
    using flog2_bounds(2) [OF R] Rm by simp
  then have "m + 1 \<le> 2 ^ 53" by (simp only: mult_less_cancel_right_pos [OF powi2_pos] of_int_less_iff)
  then have "(of_int (m + 1) :: rat) * 2 powi q \<le> of_int (2 ^ 53) * 2 powi q"
    by (intro mult_right_mono) (simp_all only: of_int_le_iff less_imp_le [OF powi2_pos])
  then have "R + 2 powi q \<le> 2 powi (flog2 R + 1)"
    using Rm top by (simp add: algebra_simps)
  moreover have two: "(2::rat) powi 1 \<le> 2 powi q" using q(2) by (simp only: powi2_le_iff)
  ultimately have "flog2 (R + d) = flog2 R"
    using d flog2_bounds(1) [OF R] by (intro flog2_unique) simp_all
  then have qd: "quantum (R + d) = q" by (simp add: quantum_def q_def)
  have e: "(R + d) / 2 powi q = of_int m + d / 2 powi q"
    using Rm by (simp add: add_divide_distrib)
  have small: "0 \<le> d / 2 powi q" "d / 2 powi q < 1 / 2"
    using d two by (simp_all add: divide_less_eq)
  moreover have "(1::rat) / 2 < 1" by simp
  ultimately have "0 \<le> d / 2 powi q" "d / 2 powi q < 1" by (blast intro: less_trans)+
  then have "\<lfloor>of_int m + d / 2 powi q\<rfloor> = m"
    by (intro floor_unique) linarith+
  then have "round_even ((R + d) / 2 powi q) = m"
    using small unfolding e by (simp add: round_even_def)
  then have "round_pos (R + d) = R" unfolding round_pos_def qd using Rm by simp
  then show ?thesis using R d by (simp add: rnd_def)
qed

lemma subsec_fraction:
  assumes "n < NANOS_PER_SEC"
  obtains d where "f64_of_rat (of_nat n / of_nat NANOS_PER_SEC) = Fin d" "0 \<le> d" "d < 1"
proof -
  let ?x = "of_nat n / of_nat NANOS_PER_SEC :: rat" and ?top = "of_int (2 ^ 53 - 1) * 2 powi - 53 :: rat"
  have "n \<le> 999999999" using assms by (simp add: NANOS_PER_SEC_def)
  then have "(of_nat n :: rat) \<le> of_nat 999999999" by (simp only: of_nat_le_iff)
  then have x: "0 \<le> ?x" "?x \<le> ?top" by (simp_all add: NANOS_PER_SEC_def field_simps)
  then have "rnd ?x \<le> rnd ?top" by (rule rnd_mono)
  also have "rnd ?top = ?top" by (rule rnd_grid [OF refl]) simp_all
  finally have "rnd ?x \<le> ?top" .
  moreover have "?top < 1" by simp
  ultimately have lt: "rnd ?x < 1" by simp
  have "(1::rat) < f64_limit" using two_pow_exact_le by simp
  with lt have "f64_of_rat ?x = Fin (rnd ?x)" by (intro f64_of_rat_small x) simp
  then show ?thesis using lt rnd_nonneg [OF x(1)] that by blast
qed

lemma f64_add_0: "f64_add (f64_of_nat s) (Fin 0) = f64_of_nat s"
proof -
  have "0 \<le> (of_nat s :: rat)" by simp
  then show ?thesis unfolding f64_of_nat_def
    by (rule f64_of_rat_cases) (simp_all add: f64_of_rat_small rnd_nonneg rnd_idem)
qed

lemma f64_add_fraction:
  assumes "0 \<le> d" "d < 1"
  shows "f64_le (f64_add (f64_of_nat s) (Fin d)) (f64_of_nat (s + 1))"
proof (cases "s \<le> 2 ^ 53")
  case True
  then have "f64_add (f64_of_nat s) (Fin d) = f64_of_rat (of_nat s + d)"
    by (simp add: f64_of_nat_exact)
  then show ?thesis using assms by (simp add: f64_of_nat_def f64_of_rat_mono)
next
  case False
  then have "(of_nat (2 ^ 53) :: rat) \<le> of_nat s" by (simp only: of_nat_le_iff)
  then have "rnd (of_nat (2 ^ 53)) \<le> rnd (of_nat s)" by (intro rnd_mono) simp_all
  then have big: "2 ^ 53 \<le> rnd (of_nat s)" using rnd_of_nat [of "2 ^ 53"] by simp
  have "rnd (rnd (of_nat s) + d) = rnd (of_nat s)"
    using big assms by (intro rnd_absorb) (simp_all add: rnd_idem)
  then have "f64_add (f64_of_nat s) (Fin d) = f64_of_nat s"
    using assms unfolding f64_of_nat_def
    by (rule_tac x = "of_nat s" in f64_of_rat_cases) (simp_all add: f64_of_rat_small rnd_nonneg)
  then show ?thesis by (simp add: f64_of_nat_mono)
qed

lemma as_secs_f64_nonneg: "f64_nonneg (as_secs_f64 d)"
  by (simp add: as_secs_f64_def f64_add_nonneg f64_of_nat_nonneg f64_of_rat_nonneg)

theorem as_secs_f64_mono: "d \<le> d' \<Longrightarrow> f64_le (as_secs_f64 d) (as_secs_f64 d')"
proof -
  assume le: "d \<le> d'"
  define s n s' n' where "s = d div NANOS_PER_SEC" "n = d mod NANOS_PER_SEC"
    "s' = d' div NANOS_PER_SEC" "n' = d' mod NANOS_PER_SEC"
  note defs = this
  have pos: "0 < NANOS_PER_SEC" by (simp add: NANOS_PER_SEC_def)
  have ss: "s \<le> s'" using le by (simp add: defs div_le_mono)
  let ?f = "\<lambda>n. f64_of_rat (of_nat n / of_nat NANOS_PER_SEC)"
  show ?thesis
  proof (cases "s = s'")
    case True
    have "d = s * NANOS_PER_SEC + n" "d' = s' * NANOS_PER_SEC + n'" by (simp_all add: defs)
    with le True have "n \<le> n'" by simp
    then have "f64_le (?f n) (?f n')"
      by (intro f64_of_rat_mono divide_right_mono) simp_all
    then have "f64_le (f64_add (f64_of_nat s) (?f n)) (f64_add (f64_of_nat s') (?f n'))"
      using True by (intro f64_add_mono f64_le_refl) (simp_all add: f64_of_nat_nonneg f64_of_rat_nonneg f64_le_refl)
    then show ?thesis by (simp add: as_secs_f64_def defs)
  next
    case False
    have "n < NANOS_PER_SEC" using pos by (simp add: defs)
    then obtain r where r: "?f n = Fin r" "0 \<le> r" "r < 1" by (rule subsec_fraction)
    have "f64_le (as_secs_f64 d) (f64_of_nat (s + 1))"
      using f64_add_fraction [OF r(2,3), of s] r(1) by (simp add: as_secs_f64_def defs)
    moreover have "f64_le (f64_of_nat (s + 1)) (f64_of_nat s')"
      using False ss by (intro f64_of_nat_mono) simp
    moreover have "f64_le (f64_of_nat s') (as_secs_f64 d')"
    proof -
      have "f64_le (f64_add (f64_of_nat s') (Fin 0)) (f64_add (f64_of_nat s') (?f n'))"
        using f64_of_rat_nonneg [of "of_nat n' / of_nat NANOS_PER_SEC"]
        by (intro f64_add_mono f64_le_refl f64_of_nat_nonneg) (simp_all add: f64_nonneg_def)
      then show ?thesis by (simp add: f64_add_0 as_secs_f64_def defs)
    qed
    ultimately show ?thesis by (blast intro: f64_le_trans)
  qed
qed

lemma as_secs_f64_0 [simp]: "as_secs_f64 0 = Fin 0"
  by (simp add: as_secs_f64_def f64_of_nat_def f64_of_rat_def f64_limit_pos Let_def not_le)


section \<open>The error of seconds as a float\<close>

text \<open>The exact number of seconds of a duration. Each of the two parts of \<open>as_secs_f64\<close> is zero or
  normal, so the three roundings err by two relative half units.\<close>

definition secs :: "duration \<Rightarrow> rat" where
  "secs d = of_nat d / of_nat NANOS_PER_SEC"

lemma secs_add: "secs (d + e) = secs d + secs e"
  by (simp add: secs_def add_divide_distrib)

lemma secs_nonneg [simp]: "0 \<le> secs d"
  by (simp add: secs_def)

lemma zero_or_normal_nanos: "zero_or_normal (of_nat n / of_nat NANOS_PER_SEC)"
proof (cases "n = 0")
  case False
  have "(2::rat) powi - 1022 \<le> 2 powi - 30" by (simp only: powi2_le_iff)
  also have "\<dots> \<le> 1 / of_nat NANOS_PER_SEC" by (simp add: NANOS_PER_SEC_def)
  also have "\<dots> \<le> of_nat n / of_nat NANOS_PER_SEC"
    using False by (intro divide_right_mono) simp_all
  finally show ?thesis by (simp only: zero_or_normal_def simp_thms)
qed (simp add: zero_or_normal_def)

lemma secs_max: "d \<le> DURATION_MAX \<Longrightarrow> secs d \<le> 2 ^ 64"
proof -
  assume "d \<le> DURATION_MAX"
  then have "d \<le> 2 ^ 64 * NANOS_PER_SEC" by (simp add: DURATION_MAX_def NANOS_PER_SEC_def)
  then have "(of_nat d :: rat) \<le> of_nat (2 ^ 64 * NANOS_PER_SEC)" by (simp only: of_nat_le_iff)
  then show ?thesis by (simp add: secs_def NANOS_PER_SEC_def)
qed

lemma secs_split: "secs d = of_nat (d div NANOS_PER_SEC) + of_nat (d mod NANOS_PER_SEC) / of_nat NANOS_PER_SEC"
proof -
  have "(of_nat d :: rat) = of_nat (d div NANOS_PER_SEC) * of_nat NANOS_PER_SEC + of_nat (d mod NANOS_PER_SEC)"
    by (metis of_nat_add of_nat_mult div_mult_mod_eq)
  then show ?thesis by (simp add: secs_def NANOS_PER_SEC_def)
qed

lemma as_secs_f64_error:
  assumes "d \<le> DURATION_MAX"
  obtains e where "as_secs_f64 d = Fin e" "0 \<le> e" "e \<le> (1 + half_ulp) ^ 2 * secs d"
    "(1 - half_ulp) ^ 2 * secs d \<le> e"
proof -
  define s f where "s = (of_nat (d div NANOS_PER_SEC) :: rat)"
    and "f = (of_nat (d mod NANOS_PER_SEC) / of_nat NANOS_PER_SEC :: rat)"
  have sf: "secs d = s + f" by (simp add: secs_split s_def f_def)
  have s: "zero_or_normal s"
    using zero_or_normal_nanos [of "d div NANOS_PER_SEC * NANOS_PER_SEC"]
    by (simp add: s_def NANOS_PER_SEC_def)
  have f: "zero_or_normal f" unfolding f_def by (rule zero_or_normal_nanos)
  have h: "0 \<le> 1 + half_ulp" "1 + half_ulp \<le> 2" by (simp_all add: half_ulp_def)
  have parts: "rnd s + rnd f \<le> (1 + half_ulp) * secs d"
    using rnd_upper [OF s] rnd_upper [OF f] by (simp add: sf distrib_left)
  have "rnd (rnd s + rnd f) \<le> (1 + half_ulp) * (rnd s + rnd f)"
    by (intro rnd_upper zero_or_normal_add zero_or_normal_rnd s f)
  also have "\<dots> \<le> (1 + half_ulp) * ((1 + half_ulp) * secs d)"
    using parts h(1) by (rule mult_left_mono)
  finally have top: "rnd (rnd s + rnd f) \<le> (1 + half_ulp) ^ 2 * secs d"
    by (simp add: power2_eq_square mult.assoc)
  have h': "0 \<le> 1 - half_ulp" by (simp add: half_ulp_def)
  have "(1 - half_ulp) * secs d \<le> rnd s + rnd f"
    using rnd_lower [OF s] rnd_lower [OF f] by (simp add: sf distrib_left)
  then have "(1 - half_ulp) * ((1 - half_ulp) * secs d) \<le> (1 - half_ulp) * (rnd s + rnd f)"
    using h' by (rule mult_left_mono)
  also have "\<dots> \<le> rnd (rnd s + rnd f)"
    by (intro rnd_lower zero_or_normal_add zero_or_normal_rnd s f)
  finally have bottom: "(1 - half_ulp) ^ 2 * secs d \<le> rnd (rnd s + rnd f)"
    by (simp add: power2_eq_square mult.assoc)
  have nn: "0 \<le> rnd s" "0 \<le> rnd f" "0 \<le> rnd s + rnd f" "0 \<le> secs d"
    using zero_or_normal_nonneg [OF s] zero_or_normal_nonneg [OF f] by (simp_all add: rnd_nonneg)
  have big: "rnd (rnd s + rnd f) < f64_limit" "rnd s < f64_limit" "rnd f < f64_limit"
  proof -
    have lim: "(2::rat) ^ 66 < f64_limit"
      unfolding f64_limit_def by (rule power_strict_increasing) simp_all
    have "(1 + half_ulp) ^ 2 * secs d \<le> 2 ^ 2 * 2 ^ 64"
      using h nn(4) secs_max [OF assms] by (intro mult_mono power_mono) simp_all
    with top lim show "rnd (rnd s + rnd f) < f64_limit" by simp
    have "(1 + half_ulp) * secs d \<le> 2 * 2 ^ 64"
      using h nn(4) secs_max [OF assms] by (intro mult_mono) simp_all
    with parts lim nn(1,2) show "rnd s < f64_limit" "rnd f < f64_limit" by simp_all
  qed
  then have "as_secs_f64 d = Fin (rnd (rnd s + rnd f))"
    using nn zero_or_normal_nonneg [OF s] zero_or_normal_nonneg [OF f]
    by (simp add: as_secs_f64_def f64_of_nat_def f64_of_rat_small flip: s_def f_def)
  then show ?thesis using that top bottom rnd_nonneg [OF nn(3)] by blast
qed


section \<open>Floats as text\<close>

text \<open>\<open>{:.3}\<close>: three decimals of the exact binary value, rounded half to even.\<close>

definition pad3 :: "nat \<Rightarrow> string" where
  [std_simps]: "pad3 n = map digit_char [n div 100, n div 10 mod 10, n mod 10]"

definition show_thousandths :: "nat \<Rightarrow> string" where
  [std_simps]: "show_thousandths n = show_nat (n div 1000) @ ''.'' @ pad3 (n mod 1000)"

definition fmt_f64_3 :: "f64 \<Rightarrow> string" where
  [std_simps]: "fmt_f64_3 x =
     (case x of NaN \<Rightarrow> ''NaN'' | Infinity \<Rightarrow> ''inf'' | NegInfinity \<Rightarrow> ''-inf''
      | Fin q \<Rightarrow> (if q < 0 then ''-'' else [])
                 @ show_thousandths (nat (round_even (\<bar>q\<bar> * 1000))))"

text \<open>
  \<open>str::parse::<f64>\<close>: an optional sign, then \<open>inf\<close>, \<open>infinity\<close> or \<open>nan\<close> in any case, or digits
  with an optional point and an optional exponent, rounded once.
\<close>

definition is_dec :: "char \<Rightarrow> bool" where
  [std_simps]: "is_dec c = (dec_digit c \<noteq> None)"

definition split_sign :: "string \<Rightarrow> bool \<times> string" where
  [std_simps]: "split_sign s = (case s of [] \<Rightarrow> (False, [])
     | c # cs \<Rightarrow> if c = CHR ''-'' then (True, cs) else if c = CHR ''+'' then (False, cs) else (False, s))"

definition parse_exponent :: "string \<Rightarrow> int option" where
  [std_simps]: "parse_exponent s =
     (case s of [] \<Rightarrow> Some 0
      | c # cs \<Rightarrow>
          if c \<noteq> CHR ''e'' \<and> c \<noteq> CHR ''E'' then None
          else case split_sign cs of (neg, ds) \<Rightarrow>
                 if ds = [] then None
                 else map_option (\<lambda>n. if neg then - int n else int n) (parse_digits 0 ds))"

definition parse_decimal :: "string \<Rightarrow> rat option" where
  [std_simps]: "parse_decimal s =
     (let whole = takeWhile is_dec s; rest = dropWhile is_dec s;
          (frac, rest') = (case rest of c # cs \<Rightarrow>
                             if c = CHR ''.'' then (takeWhile is_dec cs, dropWhile is_dec cs)
                             else ([], rest) | [] \<Rightarrow> ([], []))
      in if whole = [] \<and> frac = [] then None
         else case (parse_exponent rest', parse_digits 0 (whole @ frac)) of
                (Some e, Some m) \<Rightarrow> Some (of_nat m * 10 powi (e - int (length frac)))
              | _ \<Rightarrow> None)"

definition parse_f64 :: "string \<Rightarrow> f64 option" where
  [std_simps]: "parse_f64 s =
     (let (neg, body) = split_sign s; word = to_ascii_lowercase body;
          signed = (\<lambda>x. if neg then f64_neg x else x)
      in if word = ''inf'' \<or> word = ''infinity'' then Some (signed Infinity)
         else if word = ''nan'' then Some NaN
         else map_option (\<lambda>q. signed (f64_of_rat q)) (parse_decimal body))"

end
