(* ===== verification/Raii_Gauge.thy ===== *)
theory Raii_Gauge
  imports Reprox_Prelude
begin

text \<open>
  The contract behind every RAII handle of the program (\<open>ConnectionSlot\<close> in \<open>src/limiter.rs\<close> and
  \<open>ActiveGuard\<close> in \<open>src/metrics.rs\<close>): creating a handle adds one to an atomic gauge, dropping it
  subtracts one, and both wrap around like the atomics do. The lemmas follow the gauge through
  any interleaving of creations and drops; the providers interpret the locale on their own
  operations.
\<close>

datatype ('a, 'b) handle_event = Create 'a | Release 'b

definition creations :: "('a, 'b) handle_event list \<Rightarrow> nat" where
  "creations es = length (filter (\<lambda>e. case e of Create _ \<Rightarrow> True | Release _ \<Rightarrow> False) es)"

definition releases :: "('a, 'b) handle_event list \<Rightarrow> nat" where
  "releases es = length (filter (\<lambda>e. case e of Create _ \<Rightarrow> False | Release _ \<Rightarrow> True) es)"

lemma creations_simps [simp]:
  "creations [] = 0" "creations (Create a # es) = Suc (creations es)"
  "creations (Release b # es) = creations es"
  by (simp_all add: creations_def)

lemma releases_simps [simp]:
  "releases [] = 0" "releases (Create a # es) = releases es"
  "releases (Release b # es) = Suc (releases es)"
  by (simp_all add: releases_def)

locale raii_gauge =
  fixes create :: "'a \<Rightarrow> 's \<Rightarrow> 's"
    and release :: "'b \<Rightarrow> 's \<Rightarrow> 's"
    and level :: "'s \<Rightarrow> 64 word"
  assumes level_create: "level (create a s) = level s + 1"
    and level_release: "level (release b s) = level s - 1"
begin

fun apply_event :: "('a, 'b) handle_event \<Rightarrow> 's \<Rightarrow> 's" where
  "apply_event (Create a) s = create a s"
| "apply_event (Release b) s = release b s"

lemma level_fold:
  "level (fold apply_event es s) + of_nat (releases es) = level s + of_nat (creations es)"
proof (induction es arbitrary: s)
  case Nil
  show ?case by simp
next
  case (Cons e es)
  then show ?case
    by (cases e) (simp_all add: Cons.IH level_create level_release algebra_simps)
qed

text \<open>Every handle dropped at most once: the gauge is the number of handles alive.\<close>

lemma level_alive:
  assumes "level s = 0" and "creations es = releases es + alive"
  shows "level (fold apply_event es s) = of_nat alive"
proof -
  have "level (fold apply_event es s) + of_nat (releases es) = of_nat (creations es)"
    using level_fold [of es s] assms(1) by simp
  then show ?thesis using assms(2) by simp
qed

lemma level_balanced: "creations es = releases es \<Longrightarrow> level (fold apply_event es s) = level s"
  using level_fold [of es s] by simp

lemma level_release_create: "level (release b (create a s)) = level s"
  by (simp add: level_create level_release)

end

end
