(* ===== verification/Static_Site.thy ===== *)
theory Static_Site
  imports Std_Str
begin

text \<open>
  \<open>src/route/fallback.rs\<close>: the static site, read once at startup into a table from URL path to file
  and looked up by the decoded request path.

  A directory on disk is a value of type \<open>dir\<close>: what successive calls of \<open>next_entry\<close> return, with
  every failure the walk can meet (an iteration error, an unknown file type, an unreadable file,
  missing metadata). Symbolic links and special files are \<open>Other_node\<close>, as \<open>DirEntry::file_type\<close>
  does not follow links. Times are nanoseconds since the Unix epoch. \<open>httpdate::fmt_http_date\<close> and
  the current time are parameters; the formatter panics for times it has no form for, such as one
  before the epoch, so it is an option here, and its panic ends the loading as an error does.

  The reference is \<open>tree_files\<close>, the regular files of the tree with their paths: the walk inserts
  exactly those, so a lookup can only return the contents of a file under the root, and every
  file whose URL path is unambiguous is found.
\<close>

section \<open>Data\<close>

record file_data =
  fd_bytes :: "bytes option"
  fd_meta :: "int option option"

datatype fs_node = Dir_node dir | File_node file_data | Other_node | Unknown_type
and dir = Dir_end | Dir_fails | Dir_next string fs_node dir

record file_entry =
  fe_bytes :: bytes
  content_type :: string
  etag :: string
  last_modified :: string

type_synonym files = "string \<Rightarrow> file_entry option"

record static_site =
  site_files :: files
  site_not_found :: file_entry

datatype site_error =
  ReadingDirectory "string list" | FileTypeFailed "string list" | ReadingFile "string list"
| MetadataFailed "string list" | DatePanics "string list" | NoIndexHtml

definition DEFAULT_404_HTML :: string where
  "DEFAULT_404_HTML =
     ''<!doctype html><html lang=\"en\"><head><meta charset=\"utf-8\">'' @
     ''<title>404 Not Found</title></head><body><h1>404 Not Found</h1>'' @
     ''<p>The page you requested does not exist.</p></body></html>''"


section \<open>Entries\<close>

text \<open>The arms of the match in \<open>content_type_for\<close>.\<close>

definition content_types :: "(string \<times> string) list" where
  "content_types =
     [(''html'', ''text/html; charset=utf-8''), (''htm'', ''text/html; charset=utf-8''),
      (''css'', ''text/css; charset=utf-8''),
      (''js'', ''application/javascript; charset=utf-8''),
      (''mjs'', ''application/javascript; charset=utf-8''),
      (''json'', ''application/json; charset=utf-8''),
      (''svg'', ''image/svg+xml''), (''png'', ''image/png''),
      (''jpg'', ''image/jpeg''), (''jpeg'', ''image/jpeg''), (''gif'', ''image/gif''),
      (''ico'', ''image/x-icon''), (''webp'', ''image/webp''),
      (''woff'', ''font/woff''), (''woff2'', ''font/woff2''), (''ttf'', ''font/ttf''),
      (''txt'', ''text/plain; charset=utf-8''), (''xml'', ''application/xml; charset=utf-8''),
      (''webmanifest'', ''application/manifest+json'')]"

definition content_type_for :: "string \<Rightarrow> string" where
  "content_type_for ext =
     (case map_of content_types (to_ascii_lowercase ext) of
        Some t \<Rightarrow> t
      | None \<Rightarrow> ''application/octet-stream'')"

definition make_etag :: "u64 \<Rightarrow> u64 \<Rightarrow> string" where
  "make_etag sz mtime_secs =
     ''\"'' @ show_hex (unat mtime_secs) @ ''-'' @ show_hex (unat sz) @ ''\"''"

text \<open>\<open>Path::extension\<close> of a file name, then \<open>to_str\<close>.\<close>

definition extension :: "string \<Rightarrow> string" where
  "extension name =
     (case rsplit_once CHR ''.'' name of
        None \<Rightarrow> []
      | Some (stem, ext) \<Rightarrow> if stem = [] \<or> name = ''..'' \<or> \<not> utf8_valid ext then [] else ext)"

text \<open>The URL path of a file: its path below the root, joined with slashes, made valid UTF-8, with
  backslashes turned into slashes.\<close>

fun join_path :: "string list \<Rightarrow> string" where
  "join_path [] = []"
| "join_path [name] = name"
| "join_path (name # names) = name @ CHR ''/'' # join_path names"

definition replace_char :: "char \<Rightarrow> char \<Rightarrow> string \<Rightarrow> string" where
  "replace_char a b s = map (\<lambda>c. if c = a then b else c) s"

definition url_path :: "string list \<Rightarrow> string" where
  "url_path rel = CHR ''/'' # replace_char CHR 0x5C CHR ''/'' (from_utf8_lossy (join_path rel))"

text \<open>Seconds since the epoch, and 0 for a time before it.\<close>

definition epoch_secs :: "int \<Rightarrow> u64" where
  "epoch_secs t = (if t < 0 then 0 else of_int (t div 1000000000))"

text \<open>\<open>None\<close> is the panic of \<open>fmt_http_date\<close>.\<close>

definition file_entry_of ::
  "(int \<Rightarrow> string option) \<Rightarrow> string \<Rightarrow> bytes \<Rightarrow> int option \<Rightarrow> file_entry option" where
  "file_entry_of fmt_http_date name bs modified =
     (let mtime = (case modified of Some t \<Rightarrow> t | None \<Rightarrow> 0) in
      map_option (\<lambda>date.
        \<lparr>fe_bytes = bs, content_type = content_type_for (extension name),
         etag = make_etag (of_nat (length bs)) (epoch_secs mtime), last_modified = date\<rparr>)
       (fmt_http_date mtime))"


section \<open>The walk\<close>

definition walk_file ::
  "(int \<Rightarrow> string option) \<Rightarrow> string list \<Rightarrow> string \<Rightarrow> file_data \<Rightarrow> files \<Rightarrow> site_error + files" where
  "walk_file fmt rel name fd out =
     (case fd_bytes fd of
        None \<Rightarrow> Inl (ReadingFile (rel @ [name]))
      | Some bs \<Rightarrow>
          (case fd_meta fd of
             None \<Rightarrow> Inl (MetadataFailed (rel @ [name]))
           | Some modified \<Rightarrow>
               (case file_entry_of fmt name bs modified of
                  None \<Rightarrow> Inl (DatePanics (rel @ [name]))
                | Some e \<Rightarrow> Inr (out(url_path (rel @ [name]) \<mapsto> e)))))"

fun walk_dir :: "(int \<Rightarrow> string option) \<Rightarrow> string list \<Rightarrow> dir \<Rightarrow> files \<Rightarrow> site_error + files" where
  "walk_dir fmt rel Dir_end out = Inr out"
| "walk_dir fmt rel Dir_fails out = Inl (ReadingDirectory rel)"
| "walk_dir fmt rel (Dir_next name (Dir_node d) rest) out =
     rbind (walk_dir fmt (rel @ [name]) d out) (\<lambda>out'. walk_dir fmt rel rest out')"
| "walk_dir fmt rel (Dir_next name (File_node fd) rest) out =
     rbind (walk_file fmt rel name fd out) (\<lambda>out'. walk_dir fmt rel rest out')"
| "walk_dir fmt rel (Dir_next name Other_node rest) out = walk_dir fmt rel rest out"
| "walk_dir fmt rel (Dir_next name Unknown_type rest) out = Inl (FileTypeFailed (rel @ [name]))"

definition default_not_found :: "(int \<Rightarrow> string option) \<Rightarrow> int \<Rightarrow> file_entry option" where
  "default_not_found fmt now =
     map_option (\<lambda>date.
       \<lparr>fe_bytes = DEFAULT_404_HTML, content_type = ''text/html; charset=utf-8'',
        etag = make_etag (of_nat (length DEFAULT_404_HTML)) 0, last_modified = date\<rparr>) (fmt now)"

definition site_try_load :: "(int \<Rightarrow> string option) \<Rightarrow> int \<Rightarrow> dir \<Rightarrow> site_error + static_site" where
  "site_try_load fmt now rootdir =
     rbind (walk_dir fmt [] rootdir Map.empty) (\<lambda>files.
     rbind (ensure (files ''/index.html'' \<noteq> None) NoIndexHtml) (\<lambda>_.
     case (case files ''/404.html'' of Some e \<Rightarrow> Some e | None \<Rightarrow> default_not_found fmt now) of
       None \<Rightarrow> Inl (DatePanics [])
     | Some nf \<Rightarrow> Inr \<lparr>site_files = files, site_not_found = nf\<rparr>))"


section \<open>Lookup\<close>

definition resolve :: "static_site \<Rightarrow> string \<Rightarrow> file_entry option" where
  "resolve site raw_path =
     (let path = split_next CHR ''?'' raw_path;
          key = (if path = ''/'' \<or> path = [] then ''/index.html'' else path)
      in site_files site key)"

definition not_found :: "static_site \<Rightarrow> file_entry" where
  "not_found site = site_not_found site"

text \<open>A request path as the table is asked for it.\<close>

definition lookup_key :: "string \<Rightarrow> string" where
  "lookup_key raw_path =
     (let path = takeWhile (\<lambda>c. c \<noteq> CHR ''?'') raw_path
      in if path = ''/'' \<or> path = [] then ''/index.html'' else path)"

lemma resolve_key: "resolve site p = site_files site (lookup_key p)"
  by (simp add: resolve_def lookup_key_def split_next_def Let_def)


section \<open>The regular files of a tree\<close>

text \<open>In the order of the walk; a file that cannot be read has no place in a loaded site.\<close>

fun tree_files :: "string list \<Rightarrow> dir \<Rightarrow> (string list \<times> bytes \<times> int option) list" where
  "tree_files rel Dir_end = []"
| "tree_files rel Dir_fails = []"
| "tree_files rel (Dir_next name (Dir_node d) rest) =
     tree_files (rel @ [name]) d @ tree_files rel rest"
| "tree_files rel (Dir_next name (File_node fd) rest) =
     (case (fd_bytes fd, fd_meta fd) of
        (Some bs, Some m) \<Rightarrow> [(rel @ [name], bs, m)] | _ \<Rightarrow> []) @ tree_files rel rest"
| "tree_files rel (Dir_next name _ rest) = tree_files rel rest"

text \<open>Nothing in the tree makes the walk fail.\<close>

fun readable :: "dir \<Rightarrow> bool" where
  "readable Dir_end = True"
| "readable Dir_fails = False"
| "readable (Dir_next name (Dir_node d) rest) = (readable d \<and> readable rest)"
| "readable (Dir_next name (File_node fd) rest) =
     (fd_bytes fd \<noteq> None \<and> fd_meta fd \<noteq> None \<and> readable rest)"
| "readable (Dir_next name Other_node rest) = readable rest"
| "readable (Dir_next name Unknown_type rest) = False"

text \<open>Every file of the list has a modification time that can be formatted.\<close>

definition datable :: "(int \<Rightarrow> string option) \<Rightarrow> (string list \<times> bytes \<times> int option) list \<Rightarrow> bool" where
  "datable fmt fs = list_all (\<lambda>(rel, bs, m). fmt (case m of Some t \<Rightarrow> t | None \<Rightarrow> 0) \<noteq> None) fs"

lemma file_entry_of_None:
  "file_entry_of fmt name bs m = None \<longleftrightarrow> fmt (case m of Some t \<Rightarrow> t | None \<Rightarrow> 0) = None"
  by (simp add: file_entry_of_def Let_def)

lemma file_entry_of_bytes: "file_entry_of fmt name bs m = Some e \<Longrightarrow> fe_bytes e = bs"
  by (auto simp: file_entry_of_def Let_def)

lemma datable_Some:
  "datable fmt fs \<Longrightarrow> (rel, bs, m) \<in> set fs \<Longrightarrow> file_entry_of fmt name bs m \<noteq> None"
  by (auto simp: datable_def list_all_iff file_entry_of_None)

definition insert_file ::
  "(int \<Rightarrow> string option) \<Rightarrow> string list \<times> bytes \<times> int option \<Rightarrow> files \<Rightarrow> files" where
  "insert_file fmt f out =
     (case f of (rel, bs, m) \<Rightarrow> out(url_path rel := file_entry_of fmt (last rel) bs m))"

lemma insert_file_eq [simp]:
  "insert_file fmt (rel, bs, m) out = out(url_path rel := file_entry_of fmt (last rel) bs m)"
  by (simp add: insert_file_def)

lemma walk_file_Inr_iff:
  "walk_file fmt rel name fd out = Inr out' \<longleftrightarrow>
    (\<exists>bs m e. fd_bytes fd = Some bs \<and> fd_meta fd = Some m \<and> file_entry_of fmt name bs m = Some e \<and>
       out' = out(url_path (rel @ [name]) \<mapsto> e))"
  by (auto simp: walk_file_def split: option.splits)

lemma walk_dir_Inr_iff:
  "walk_dir fmt rel d out = Inr files \<longleftrightarrow>
    readable d \<and> datable fmt (tree_files rel d) \<and> files = fold (insert_file fmt) (tree_files rel d) out"
proof (induction fmt rel d out arbitrary: files rule: walk_dir.induct)
  case (4 fmt rel name fd rest out)
  have IH: "walk_dir fmt rel rest out' = Inr files' \<longleftrightarrow>
      readable rest \<and> datable fmt (tree_files rel rest) \<and>
      files' = fold (insert_file fmt) (tree_files rel rest) out'"
    if "walk_file fmt rel name fd out = Inr out'" for out' files'
    using "4.IH" [of out' files'] that by simp
  show ?case
  proof (cases "walk_file fmt rel name fd out")
    case (Inl e)
    then show ?thesis by (auto simp: walk_file_def datable_def file_entry_of_None split: option.splits)
  next
    case (Inr out')
    then obtain bs m e where read: "fd_bytes fd = Some bs" "fd_meta fd = Some m"
      "file_entry_of fmt name bs m = Some e" "out' = out(url_path (rel @ [name]) \<mapsto> e)"
      by (auto simp: walk_file_Inr_iff)
    then have "fmt (case m of Some t \<Rightarrow> t | None \<Rightarrow> 0) \<noteq> None" by (metis file_entry_of_None option.distinct(1))
    with read show ?thesis using IH [OF Inr] by (simp add: Inr datable_def)
  qed
qed (auto simp: rbind_Inr_iff datable_def)

lemma fold_insert_file:
  "fold (insert_file fmt) fs out u = Some e \<Longrightarrow>
    out u = Some e \<or>
    (\<exists>rel bs m. (rel, bs, m) \<in> set fs \<and> url_path rel = u \<and> file_entry_of fmt (last rel) bs m = Some e)"
proof (induction fs arbitrary: out)
  case Nil
  then show ?case by simp
next
  case (Cons f fs)
  obtain rel bs m where f: "f = (rel, bs, m)" by (cases f)
  from Cons.prems have "fold (insert_file fmt) fs (insert_file fmt f out) u = Some e" by simp
  then have "insert_file fmt f out u = Some e \<or>
    (\<exists>rel bs m. (rel, bs, m) \<in> set fs \<and> url_path rel = u \<and> file_entry_of fmt (last rel) bs m = Some e)"
    by (rule Cons.IH)
  then show ?case
  proof
    assume "insert_file fmt f out u = Some e"
    then show ?case using f by (cases "u = url_path rel") auto
  qed auto
qed

lemma fold_insert_other:
  "u \<notin> url_path ` fst ` set fs \<Longrightarrow> fold (insert_file fmt) fs out u = out u"
proof (induction fs arbitrary: out)
  case Nil
  then show ?case by simp
next
  case (Cons f fs)
  then show ?case by (cases f) simp
qed

lemma fold_insert_unique:
  assumes "(rel, bs, m) \<in> set fs"
    and "\<forall>f \<in> set fs. url_path (fst f) = url_path rel \<longrightarrow> f = (rel, bs, m)"
  shows "fold (insert_file fmt) fs out (url_path rel) = file_entry_of fmt (last rel) bs m"
  using assms
proof (induction fs arbitrary: out)
  case Nil
  then show ?case by simp
next
  case (Cons f fs)
  show ?case
  proof (cases "(rel, bs, m) \<in> set fs")
    case True
    then have "fold (insert_file fmt) fs (insert_file fmt f out) (url_path rel) =
        file_entry_of fmt (last rel) bs m"
      by (rule Cons.IH) (use Cons.prems(2) in simp)
    then show ?thesis by simp
  next
    case False
    then have "f = (rel, bs, m)" using Cons.prems(1) by simp
    moreover have "url_path rel \<notin> url_path ` fst ` set fs" using Cons.prems(2) False by fastforce
    ultimately show ?thesis by (simp add: fold_insert_other)
  qed
qed

text \<open>A path has an entry after the walk exactly when a file has it.\<close>

lemma fold_insert_domain:
  "datable fmt fs \<Longrightarrow>
    fold (insert_file fmt) fs out u \<noteq> None \<longleftrightarrow> out u \<noteq> None \<or> u \<in> url_path ` fst ` set fs"
proof (induction fs arbitrary: out)
  case (Cons f fs)
  obtain rel bs m where f: "f = (rel, bs, m)" by (cases f)
  have "file_entry_of fmt (last rel) bs m \<noteq> None"
    by (rule datable_Some [OF Cons.prems, of rel]) (simp add: f)
  moreover have "datable fmt fs" using Cons.prems by (simp add: datable_def)
  ultimately show ?case using Cons.IH by (auto simp: f)
qed simp

lemma site_try_load_Inr_iff:
  "site_try_load fmt now rootdir = Inr site \<longleftrightarrow>
    readable rootdir \<and> datable fmt (tree_files [] rootdir) \<and>
    site_files site = fold (insert_file fmt) (tree_files [] rootdir) Map.empty \<and>
    site_files site ''/index.html'' \<noteq> None \<and>
    (case site_files site ''/404.html'' of Some e \<Rightarrow> Some e | None \<Rightarrow> default_not_found fmt now)
      = Some (site_not_found site)"
  by (cases site) (auto simp: site_try_load_def rbind_Inr_iff walk_dir_Inr_iff split: option.splits)

lemma site_try_load_Inr:
  assumes "site_try_load fmt now rootdir = Inr site"
  shows "readable rootdir" "datable fmt (tree_files [] rootdir)"
    "site_files site = fold (insert_file fmt) (tree_files [] rootdir) Map.empty"
    "site_files site ''/index.html'' \<noteq> None"
  using assms unfolding site_try_load_Inr_iff by blast+

text \<open>The entity tag tells the two numbers apart.\<close>

lemma show_hex_no_dash: "CHR ''-'' \<notin> set (show_hex n)"
proof
  assume "CHR ''-'' \<in> set (show_hex n)"
  then obtain d where d: "d \<in> set (digits 16 n)" "digit_char d = CHR ''-''"
    by (auto simp: show_hex_def)
  have "d < 16" using digits_less [OF _ d(1)] by simp
  then show False using of_char_digit_char [of d] d(2) by (auto split: if_splits)
qed

lemma append_sep_inject:
  assumes "x \<notin> set a" and "x \<notin> set c" and "a @ x # b = c @ x # d"
  shows "a = c \<and> b = d"
  using assms
proof (induction a arbitrary: c)
  case Nil
  then show ?case by (cases c) auto
next
  case (Cons y a)
  then show ?case by (cases c) auto
qed


section \<open>A sample site\<close>

definition sample_dir :: dir where
  "sample_dir =
     Dir_next ''index.html'' (File_node \<lparr>fd_bytes = Some ''hi'', fd_meta = Some (Some 1000000000)\<rparr>)
      (Dir_next ''etc'' Other_node
        (Dir_next ''css'' (Dir_node (Dir_next ''a.css'' (File_node \<lparr>fd_bytes = Some ''p'', fd_meta = Some None\<rparr>) Dir_end))
          Dir_end))"

text \<open>A formatter that panics before the epoch.\<close>

definition sample_date :: "int \<Rightarrow> string option" where
  "sample_date t = (if t < 0 then None else Some ''date'')"

lemma sample_tree: "tree_files [] sample_dir =
  [([''index.html''], ''hi'', Some 1000000000), ([''css'', ''a.css''], ''p'', None)]"
  by (simp add: sample_dir_def)

lemma sample_urls: "url_path [''index.html''] = ''/index.html''" "url_path [''css'', ''a.css''] = ''/css/a.css''"
  by (simp_all add: url_path_def replace_char_def std_simps)

lemma sample_datable: "readable sample_dir" "datable sample_date (tree_files [] sample_dir)"
  by (simp_all add: sample_tree datable_def sample_date_def) (simp add: sample_dir_def)

lemma sample_site_loads: "\<exists>site. site_try_load sample_date 0 sample_dir = Inr site"
proof -
  let ?files = "fold (insert_file sample_date) (tree_files [] sample_dir) Map.empty"
  let ?not_found = "the (default_not_found sample_date 0)"
  have "site_try_load sample_date 0 sample_dir = Inr \<lparr>site_files = ?files, site_not_found = ?not_found\<rparr>"
    by (simp add: site_try_load_Inr_iff sample_datable)
       (simp add: sample_tree sample_urls default_not_found_def file_entry_of_def sample_date_def)
  then show ?thesis by blast
qed


lemma resolve_in_tree:
  assumes "site_try_load fmt now rootdir = Inr site" "resolve site raw_path = Some e"
  shows "\<exists>rel bs m. (rel, bs, m) \<in> set (tree_files [] rootdir) \<and> url_path rel = lookup_key raw_path \<and>
    fe_bytes e = bs \<and> file_entry_of fmt (last rel) bs m = Some e"
  using assms(2) fold_insert_file [of fmt "tree_files [] rootdir" Map.empty "lookup_key raw_path" e]
    file_entry_of_bytes
  by (fastforce simp: resolve_key site_try_load_Inr(3) [OF assms(1)])


section \<open>Properties\<close>

text \<open>
  C35: The site loads exactly when the walk meets no error, every file has a modification time that
  can be formatted, some file is served as \<open>/index.html\<close>, and either one is served as \<open>/404.html\<close> or
  the time of the start can be formatted. So one file dated before the epoch, whose entity tag the
  code takes care to compute, keeps the server from starting.
\<close>

theorem site_loads_exactly:
  "(\<exists>site. site_try_load fmt now rootdir = Inr site) \<longleftrightarrow>
    readable rootdir \<and>
    (\<forall>(rel, bs, m) \<in> set (tree_files [] rootdir). fmt (case m of Some t \<Rightarrow> t | None \<Rightarrow> 0) \<noteq> None) \<and>
    (\<exists>f \<in> set (tree_files [] rootdir). url_path (fst f) = ''/index.html'') \<and>
    ((\<exists>f \<in> set (tree_files [] rootdir). url_path (fst f) = ''/404.html'') \<or> fmt now \<noteq> None)"
proof -
  let ?fs = "tree_files [] rootdir"
  let ?files = "fold (insert_file fmt) ?fs Map.empty"
  have served: "?files u \<noteq> None \<longleftrightarrow> (\<exists>f \<in> set ?fs. url_path (fst f) = u)" if "datable fmt ?fs" for u
    using fold_insert_domain [OF that, of Map.empty u] by auto
  let ?not_found = "case ?files ''/404.html'' of Some e \<Rightarrow> Some e | None \<Rightarrow> default_not_found fmt now"
  have "(\<exists>site. site_try_load fmt now rootdir = Inr site) \<longleftrightarrow>
      readable rootdir \<and> datable fmt ?fs \<and> ?files ''/index.html'' \<noteq> None \<and> ?not_found \<noteq> None"
  proof
    assume "readable rootdir \<and> datable fmt ?fs \<and> ?files ''/index.html'' \<noteq> None \<and> ?not_found \<noteq> None"
    then have "site_try_load fmt now rootdir = Inr \<lparr>site_files = ?files, site_not_found = the ?not_found\<rparr>"
      unfolding site_try_load_Inr_iff static_site.simps by (metis option.exhaust_sel)
    then show "\<exists>site. site_try_load fmt now rootdir = Inr site" ..
  next
    assume "\<exists>site. site_try_load fmt now rootdir = Inr site"
    then show "readable rootdir \<and> datable fmt ?fs \<and> ?files ''/index.html'' \<noteq> None \<and> ?not_found \<noteq> None"
      unfolding site_try_load_Inr_iff by (metis option.distinct(1))
  qed
  moreover have "?not_found \<noteq> None \<longleftrightarrow> ?files ''/404.html'' \<noteq> None \<or> fmt now \<noteq> None"
    by (simp add: default_not_found_def split: option.split)
  ultimately have "(\<exists>site. site_try_load fmt now rootdir = Inr site) \<longleftrightarrow>
      readable rootdir \<and> datable fmt ?fs \<and> ?files ''/index.html'' \<noteq> None \<and>
      (?files ''/404.html'' \<noteq> None \<or> fmt now \<noteq> None)" by blast
  then show ?thesis using served by (auto simp: datable_def list_all_iff)
qed

definition sample_old_dir :: dir where
  "sample_old_dir =
     Dir_next ''old'' (File_node \<lparr>fd_bytes = Some [], fd_meta = Some (Some (- 1))\<rparr>) sample_dir"

lemma site_loads_exactly_witness:
  "(\<exists>site. site_try_load sample_date 0 sample_dir = Inr site) \<and>
    (\<nexists>site. site_try_load sample_date 0 sample_old_dir = Inr site)"
proof -
  have old: "([''old''], [], Some (- 1)) \<in> set (tree_files [] sample_old_dir)"
    by (simp add: sample_old_dir_def)
  have "\<not> (\<forall>(rel, bs, m) \<in> set (tree_files [] sample_old_dir).
      sample_date (case m of Some t \<Rightarrow> t | None \<Rightarrow> 0) \<noteq> None)"
    by (rule notI, drule bspec [OF _ old]) (simp add: sample_date_def)
  then show ?thesis
    unfolding site_loads_exactly [of sample_date 0 sample_old_dir] using sample_site_loads by blast
qed

text \<open>
  C33: Whatever path is asked for, a loaded site returns the contents of a regular file of the tree
  under its root, the one whose URL path is the lookup key; nothing outside the tree is reachable.
\<close>

theorem resolve_confined:
  assumes "site_try_load fmt now rootdir = Inr site" "resolve site raw_path = Some e"
  shows "\<exists>rel bs m. (rel, bs, m) \<in> set (tree_files [] rootdir) \<and> url_path rel = lookup_key raw_path \<and>
    fe_bytes e = bs \<and> file_entry_of fmt (last rel) bs m = Some e"
  using assms by (rule resolve_in_tree)

lemma resolve_confined_witness:
  "\<exists>site e rel bs m. site_try_load sample_date 0 sample_dir = Inr site \<and> resolve site ''/?q=1'' = Some e \<and>
    (rel, bs, m) \<in> set (tree_files [] sample_dir) \<and> fe_bytes e = bs"
proof -
  obtain site where site: "site_try_load sample_date 0 sample_dir = Inr site"
    using sample_site_loads by blast
  have "lookup_key ''/?q=1'' = ''/index.html''" by (simp add: lookup_key_def)
  then obtain e where e: "resolve site ''/?q=1'' = Some e"
    using site_try_load_Inr(4) [OF site] by (auto simp: resolve_key)
  show ?thesis using resolve_confined [OF site e] site e by blast
qed

text \<open>
  C34: Every regular file of the tree whose URL path is not shared with another file, is not the
  root path and has no question mark is served under its URL path, with or without a query; and
  the root path is always served.
\<close>

theorem resolve_complete:
  assumes "site_try_load fmt now rootdir = Inr site" "(rel, bs, m) \<in> set (tree_files [] rootdir)"
    and "\<forall>f \<in> set (tree_files [] rootdir). url_path (fst f) = url_path rel \<longrightarrow> f = (rel, bs, m)"
    and "CHR ''?'' \<notin> set (url_path rel)" "url_path rel \<noteq> ''/''"
  shows "(\<exists>e. file_entry_of fmt (last rel) bs m = Some e \<and>
      resolve site (url_path rel) = Some e \<and> resolve site (url_path rel @ CHR ''?'' # query) = Some e) \<and>
    resolve site ''/'' \<noteq> None"
proof -
  have no_q: "takeWhile (\<lambda>c. c \<noteq> CHR ''?'') (url_path rel @ xs) = url_path rel @ takeWhile (\<lambda>c. c \<noteq> CHR ''?'') xs" for xs
    using assms(4) by (intro takeWhile_append2) auto
  have "url_path rel \<noteq> []" by (simp add: url_path_def)
  then have "lookup_key (url_path rel) = url_path rel" "lookup_key (url_path rel @ CHR ''?'' # query) = url_path rel"
    using no_q [of "[]"] no_q [of "CHR ''?'' # query"] assms(5)
    unfolding lookup_key_def Let_def by (simp_all only: append_Nil2 takeWhile.simps) simp_all
  moreover have "lookup_key ''/'' = ''/index.html''" by (simp add: lookup_key_def)
  ultimately show ?thesis
    using fold_insert_unique [OF assms(2,3), of fmt Map.empty] site_try_load_Inr(4) [OF assms(1)]
      datable_Some [OF site_try_load_Inr(2) [OF assms(1)] assms(2), of "last rel"]
    by (auto simp: resolve_key site_try_load_Inr(3) [OF assms(1)])
qed

lemma resolve_complete_witness:
  "\<exists>site. site_try_load sample_date 0 sample_dir = Inr site \<and>
    resolve site ''/css/a.css'' = file_entry_of sample_date ''a.css'' ''p'' None"
proof -
  obtain site where site: "site_try_load sample_date 0 sample_dir = Inr site"
    using sample_site_loads by blast
  let ?rel = "[''css'', ''a.css'']"
  have "(?rel, ''p'', None) \<in> set (tree_files [] sample_dir)" by (simp add: sample_tree)
  moreover have "\<forall>f \<in> set (tree_files [] sample_dir). url_path (fst f) = url_path ?rel \<longrightarrow> f = (?rel, ''p'', None)"
    by (simp add: sample_tree sample_urls)
  moreover have "CHR ''?'' \<notin> set (url_path ?rel)" "url_path ?rel \<noteq> ''/''" by (simp_all add: sample_urls)
  ultimately have "resolve site (url_path ?rel) = file_entry_of sample_date (last ?rel) ''p'' None"
    using resolve_complete [OF site] by metis
  then show ?thesis using site by (simp add: sample_urls)
qed

text \<open>
  Two entity tags agree exactly when the sizes and the modification times in seconds do.
\<close>

theorem make_etag_inject:
  "make_etag size1 mtime1 = make_etag size2 mtime2 \<longleftrightarrow> size1 = size2 \<and> mtime1 = mtime2"
proof
  assume "make_etag size1 mtime1 = make_etag size2 mtime2"
  then have "show_hex (unat mtime1) @ CHR ''-'' # show_hex (unat size1)
      = show_hex (unat mtime2) @ CHR ''-'' # show_hex (unat size2)"
    by (simp add: make_etag_def)
  then have "show_hex (unat mtime1) = show_hex (unat mtime2) \<and> show_hex (unat size1) = show_hex (unat size2)"
    by (rule append_sep_inject [OF show_hex_no_dash show_hex_no_dash])
  then show "size1 = size2 \<and> mtime1 = mtime2"
    using show_hex_inject by (auto simp: word_unat_eq_iff)
qed simp

end
