(* ===== verification/Std_Net.thy ===== *)
theory Std_Net
  imports Std_Str
begin

text \<open>
  \<open>std::net\<close>: IP and socket addresses, \<open>is_loopback\<close>, and the recursive-descent parser behind
  \<open>str::parse::<SocketAddr>\<close>, one function per method of the parser. A parser function
  takes the remaining input and returns the value read with the input left, or \<open>None\<close> with the
  input untouched (the atomic reads of the source library).
\<close>

datatype ip_addr = V4 u8 u8 u8 u8 | V6 "u16 list"

datatype socket_addr = SocketAddr (sa_ip: ip_addr) (sa_port: u16) (sa_scope: u32)

fun is_loopback :: "ip_addr \<Rightarrow> bool" where
  "is_loopback (V4 a b c d) = (a = 127)"
| "is_loopback (V6 gs) = (gs = [0, 0, 0, 0, 0, 0, 0, 1])"


section \<open>The address parser\<close>

type_synonym 'a parser = "string \<Rightarrow> ('a \<times> string) option"

definition p_char :: "char \<Rightarrow> unit parser" where
  [std_simps]: "p_char c s = (case s of d # ds \<Rightarrow> if d = c then Some ((), ds) else None | [] \<Rightarrow> None)"

text \<open>\<open>char::to_digit\<close>.\<close>

definition to_digit :: "nat \<Rightarrow> char \<Rightarrow> nat option" where
  [std_simps]: "to_digit radix c =
     (let n = of_char c;
          v = (if 48 \<le> n \<and> n \<le> 57 then Some (n - 48)
               else if 97 \<le> n \<and> n \<le> 122 then Some (n - 87)
               else if 65 \<le> n \<and> n \<le> 90 then Some (n - 55) else None)
      in case v of Some d \<Rightarrow> if d < radix then Some d else None | None \<Rightarrow> None)"

text \<open>The digits at the front, at most \<open>limit\<close> of them when there is a limit; reading one digit
  too many, or a value of more than \<open>w\<close> bits, is a failure.\<close>

definition p_number :: "nat \<Rightarrow> nat option \<Rightarrow> bool \<Rightarrow> nat \<Rightarrow> nat parser" where
  [std_simps]: "p_number radix limit allow_zero_prefix w s =
     (let ds = takeWhile (\<lambda>c. to_digit radix c \<noteq> None) s;
          v = foldl (\<lambda>acc c. acc * radix + the (to_digit radix c)) 0 ds
      in if (case limit of Some m \<Rightarrow> m < length ds | None \<Rightarrow> False) then None
         else if ds = [] then None
         else if \<not> allow_zero_prefix \<and> hd ds = CHR ''0'' \<and> 1 < length ds then None
         else if v < 2 ^ w then Some (v, drop (length ds) s) else None)"

definition p_sep :: "char \<Rightarrow> nat \<Rightarrow> 'a parser \<Rightarrow> 'a parser" where
  [std_simps]: "p_sep c i p s =
     (if i = 0 then p s
      else case p_char c s of Some (_, s') \<Rightarrow> p s' | None \<Rightarrow> None)"

fun p_octets :: "nat \<Rightarrow> nat \<Rightarrow> u8 list parser" where
  "p_octets 0 i s = Some ([], s)"
| "p_octets (Suc k) i s =
     (case p_sep CHR ''.'' i (p_number 10 (Some 3) False 8) s of
        None \<Rightarrow> None
      | Some (n, s') \<Rightarrow> map_option (apfst ((#) (of_nat n))) (p_octets k (Suc i) s'))"

lemma p_octets_numeral [std_simps]:
  "p_octets (numeral k) i s =
     (case p_sep CHR ''.'' i (p_number 10 (Some 3) False 8) s of
        None \<Rightarrow> None
      | Some (n, s') \<Rightarrow> map_option (apfst ((#) (of_nat n))) (p_octets (pred_numeral k) (Suc i) s'))"
  by (simp add: numeral_eq_Suc)

definition p_ipv4 :: "u8 list parser" where
  [std_simps]: "p_ipv4 s = p_octets 4 0 s"

text \<open>\<open>read_groups\<close>: up to \<open>limit\<close> groups, with a trailing embedded IPv4 address when at least two
  groups are left; the flag says whether one was read.\<close>

definition pair_u16 :: "u8 \<Rightarrow> u8 \<Rightarrow> u16" where
  [std_simps]: "pair_u16 a b = of_nat (unat a * 256 + unat b)"

fun p_groups :: "nat \<Rightarrow> nat \<Rightarrow> string \<Rightarrow> u16 list \<times> bool \<times> string" where
  "p_groups 0 i s = ([], False, s)"
| "p_groups (Suc k) i s =
     (case (if 0 < k then p_sep CHR '':'' i p_ipv4 s else None) of
        Some (os, s') \<Rightarrow> ([pair_u16 (os ! 0) (os ! 1), pair_u16 (os ! 2) (os ! 3)], True, s')
      | None \<Rightarrow>
          (case p_sep CHR '':'' i (p_number 16 (Some 4) True 16) s of
             Some (g, s') \<Rightarrow> (case p_groups k (Suc i) s' of (gs, v4, s'') \<Rightarrow> (of_nat g # gs, v4, s''))
           | None \<Rightarrow> ([], False, s)))"

lemma p_groups_numeral [std_simps]:
  "p_groups (numeral k) i s =
     (case (if 0 < pred_numeral k then p_sep CHR '':'' i p_ipv4 s else None) of
        Some (os, s') \<Rightarrow> ([pair_u16 (os ! 0) (os ! 1), pair_u16 (os ! 2) (os ! 3)], True, s')
      | None \<Rightarrow>
          (case p_sep CHR '':'' i (p_number 16 (Some 4) True 16) s of
             Some (g, s') \<Rightarrow>
               (case p_groups (pred_numeral k) (Suc i) s' of (gs, v4, s'') \<Rightarrow> (of_nat g # gs, v4, s''))
           | None \<Rightarrow> ([], False, s)))"
  by (simp add: numeral_eq_Suc)

lemma replicate_numeral [std_simps]: "replicate (numeral k) x = x # replicate (pred_numeral k) x"
  by (simp add: numeral_eq_Suc)

definition p_ipv6 :: "u16 list parser" where
  [std_simps]: "p_ipv6 s =
     (case p_groups 8 0 s of (hd8, v4, s1) \<Rightarrow>
        if length hd8 = 8 then Some (hd8, s1)
        else if v4 then None
        else case p_char CHR '':'' s1 of
          None \<Rightarrow> None
        | Some (_, s2) \<Rightarrow>
            (case p_char CHR '':'' s2 of
               None \<Rightarrow> None
             | Some (_, s3) \<Rightarrow>
                 (case p_groups (8 - (length hd8 + 1)) 0 s3 of (tl7, _, s4) \<Rightarrow>
                    Some (hd8 @ replicate (8 - length hd8 - length tl7) 0 @ tl7, s4))))"

definition p_port :: "u16 parser" where
  [std_simps]: "p_port s =
     (case p_char CHR '':'' s of
        None \<Rightarrow> None
      | Some (_, s') \<Rightarrow> map_option (apfst of_nat) (p_number 10 None True 16 s'))"

definition p_scope_id :: "u32 parser" where
  [std_simps]: "p_scope_id s =
     (case p_char CHR ''%'' s of
        None \<Rightarrow> None
      | Some (_, s') \<Rightarrow> map_option (apfst of_nat) (p_number 10 None True 32 s'))"

definition p_socket_v4 :: "socket_addr parser" where
  [std_simps]: "p_socket_v4 s =
     (case p_ipv4 s of
        None \<Rightarrow> None
      | Some (os, s1) \<Rightarrow>
          map_option (apfst (\<lambda>p. SocketAddr (V4 (os ! 0) (os ! 1) (os ! 2) (os ! 3)) p 0)) (p_port s1))"

definition p_socket_v6 :: "socket_addr parser" where
  [std_simps]: "p_socket_v6 s =
     (case p_char CHR ''['' s of None \<Rightarrow> None | Some (_, s1) \<Rightarrow>
      (case p_ipv6 s1 of None \<Rightarrow> None | Some (gs, s2) \<Rightarrow>
       (let (scope, s3) = (case p_scope_id s2 of Some r \<Rightarrow> r | None \<Rightarrow> (0, s2)) in
        (case p_char CHR '']'' s3 of None \<Rightarrow> None | Some (_, s4) \<Rightarrow>
           map_option (apfst (\<lambda>p. SocketAddr (V6 gs) p scope)) (p_port s4)))))"

text \<open>\<open>SocketAddr::from_str\<close>: the whole input must be consumed.\<close>

definition parse_socket_addr :: "string \<Rightarrow> socket_addr option" where
  [std_simps]: "parse_socket_addr s =
     (case (case p_socket_v4 s of Some r \<Rightarrow> Some r | None \<Rightarrow> p_socket_v6 s) of
        Some (a, rest) \<Rightarrow> if rest = [] then Some a else None
      | None \<Rightarrow> None)"

end
