(* ===== verification/Config.thy ===== *)
theory Config
  imports Std_Time Std_Net
begin

text \<open>
  \<open>src/config.rs\<close>: the configuration record, its defaults, the environment overrides, the
  validation of routes, upstreams and ALPN lists, and loading. The TOML parser is a parameter
  (\<open>toml_from_str\<close>, from text to the raw record serde fills), and so are the environment variables
  and the file system (\<open>host\<close>). Every \<open>bail!\<close> and \<open>ensure!\<close> is a constructor of an error type.

  The lemmas characterise exactly which upstreams, ALPN lists and configurations are accepted,
  and what a loaded configuration guarantees to the router and to the metrics listener.
\<close>

section \<open>Data\<close>

record proxy_target =
  sni :: string
  upstream :: string
  alpn_protocols :: "bytes list option"
  tls_passthrough :: bool

record service_config =
  listen_addr :: socket_addr
  routes :: "proxy_target list"
  tls_cert_path :: string
  tls_key_path :: string
  static_dir :: string
  server_header :: string
  start_handshake_timeout_secs :: u64
  handshake_timeout_secs :: u64
  tls_min_version :: string
  metrics_addr :: "socket_addr option"
  max_connections :: usize
  max_connections_per_ip :: "usize option"
  connection_rate_per_ip :: "f64 option"
  connection_burst_per_ip :: "u64 option"

text \<open>What the TOML document holds before serde fills in the defaults.\<close>

record raw_target =
  raw_sni :: string
  raw_upstream :: string
  raw_alpn :: "string list option"
  raw_passthrough :: "bool option"

record raw_config =
  raw_listen_addr :: socket_addr
  raw_routes :: "raw_target list"
  raw_cert_path :: string
  raw_key_path :: string
  raw_static_dir :: string
  raw_server_header :: "string option"
  raw_start_timeout :: "u64 option"
  raw_handshake_timeout :: "u64 option"
  raw_tls_min_version :: "string option"
  raw_metrics_addr :: "socket_addr option"
  raw_max_connections :: "usize option"
  raw_max_per_ip :: "usize option"
  raw_rate :: "f64 option"
  raw_burst :: "u64 option"

definition default_server_header :: string where
  "default_server_header = ''nginx/1.26.2 (Ubuntu)''"

definition default_start_handshake_timeout :: u64 where
  "default_start_handshake_timeout = 10"

definition default_handshake_timeout :: u64 where
  "default_handshake_timeout = 10"

definition default_tls_min_version :: string where
  "default_tls_min_version = ''1.2''"

definition default_max_connections :: usize where
  "default_max_connections = 10000"

definition default_tls_passthrough :: bool where
  "default_tls_passthrough = True"

text \<open>\<open>s.into_bytes()\<close>: a string and its bytes are one type here.\<close>

definition into_bytes :: "string \<Rightarrow> bytes" where
  "into_bytes s = s"

definition deserialize_string_as_bytes :: "string list option \<Rightarrow> bytes list option" where
  "deserialize_string_as_bytes opt_strings = map_option (map into_bytes) opt_strings"

definition or_default :: "'a option \<Rightarrow> 'a \<Rightarrow> 'a" where
  "or_default v d = (case v of Some x \<Rightarrow> x | None \<Rightarrow> d)"

definition target_of_raw :: "raw_target \<Rightarrow> proxy_target" where
  "target_of_raw r =
     \<lparr>sni = raw_sni r, upstream = raw_upstream r,
      alpn_protocols = deserialize_string_as_bytes (raw_alpn r),
      tls_passthrough = or_default (raw_passthrough r) default_tls_passthrough\<rparr>"

definition config_of_raw :: "raw_config \<Rightarrow> service_config" where
  "config_of_raw r =
     \<lparr>listen_addr = raw_listen_addr r,
      routes = map target_of_raw (raw_routes r),
      tls_cert_path = raw_cert_path r,
      tls_key_path = raw_key_path r,
      static_dir = raw_static_dir r,
      server_header = or_default (raw_server_header r) default_server_header,
      start_handshake_timeout_secs = or_default (raw_start_timeout r) default_start_handshake_timeout,
      handshake_timeout_secs = or_default (raw_handshake_timeout r) default_handshake_timeout,
      tls_min_version = or_default (raw_tls_min_version r) default_tls_min_version,
      metrics_addr = raw_metrics_addr r,
      max_connections = or_default (raw_max_connections r) default_max_connections,
      max_connections_per_ip = raw_max_per_ip r,
      connection_rate_per_ip = raw_rate r,
      connection_burst_per_ip = raw_burst r\<rparr>"


section \<open>Errors\<close>

datatype upstream_error =
  HasScheme | HasWhitespace | MissingPort | EmptyHost | HasPath | BadHostChars
| PortZero | BadPort

datatype alpn_error =
  AlpnListEmpty | AlpnEmpty nat | AlpnTooLong nat | AlpnDuplicate nat | AlpnListTooLong nat

datatype config_error =
  RoutesEmptyString | DuplicateSni string
| InvalidUpstream string upstream_error | InvalidAlpn string alpn_error
| StartHandshakeTimeoutZero | HandshakeTimeoutZero
| CertNotFound string | KeyNotFound string | StaticDirNotFound string
| BadTlsMinVersion string | MetricsNotLoopback socket_addr
| MaxConnectionsZero | RateNotPositive | BurstZero
| ReadFailed string | ParseFailed string


section \<open>Upstreams\<close>

definition host_char :: "char \<Rightarrow> bool" where
  "host_char c =
     (let n = of_char c :: nat in
      48 \<le> n \<and> n \<le> 57 \<or> 65 \<le> n \<and> n \<le> 90 \<or> 97 \<le> n \<and> n \<le> 122
      \<or> c = CHR ''.'' \<or> c = CHR ''-'' \<or> c = CHR ''_'')"

definition validate_upstream :: "string \<Rightarrow> upstream_error + unit" where
  "validate_upstream up =
     (if (case parse_socket_addr up of Some addr \<Rightarrow> sa_port addr \<noteq> 0 | None \<Rightarrow> False) then Inr ()
      else if str_contains ''://'' up then Inl HasScheme
      else if any_whitespace up then Inl HasWhitespace
      else case rsplit_once CHR '':'' up of
             None \<Rightarrow> Inl MissingPort
           | Some (host, port) \<Rightarrow>
               if host = [] then Inl EmptyHost
               else if CHR ''/'' \<in> set host then Inl HasPath
               else if \<not> list_all host_char host then Inl BadHostChars
               else case parse_uint 16 port of
                      Some n \<Rightarrow> if n = 0 then Inl PortZero else Inr ()
                    | None \<Rightarrow> Inl BadPort)"


section \<open>ALPN lists\<close>

definition MAX_PROTOCOL_LEN :: nat where
  "MAX_PROTOCOL_LEN = 255"

definition MAX_LIST_LEN :: nat where
  "MAX_LIST_LEN = 65535"

text \<open>The loop of \<open>validate_alpn_protocols\<close>, with the index, the names seen and the running
  length; the result is the total length.\<close>

fun alpn_loop :: "nat \<Rightarrow> bytes set \<Rightarrow> nat \<Rightarrow> bytes list \<Rightarrow> alpn_error + nat" where
  "alpn_loop i seen len [] = Inr len"
| "alpn_loop i seen len (proto # ps) =
     (if proto = [] then Inl (AlpnEmpty i)
      else if MAX_PROTOCOL_LEN < length proto then Inl (AlpnTooLong i)
      else if proto \<in> seen then Inl (AlpnDuplicate i)
      else alpn_loop (Suc i) (insert proto seen) (len + (1 + length proto)) ps)"

definition validate_alpn_protocols :: "bytes list option \<Rightarrow> alpn_error + unit" where
  "validate_alpn_protocols protos =
     (case protos of
        None \<Rightarrow> Inr ()
      | Some ps \<Rightarrow>
          if ps = [] then Inl AlpnListEmpty
          else rbind (alpn_loop 0 {} 0 ps)
                 (\<lambda>len. ensure (len \<le> MAX_LIST_LEN) (AlpnListTooLong len)))"


section \<open>The host and the environment overrides\<close>

datatype path_kind = IsFile | IsDir

record host =
  env_var :: "string \<rightharpoonup> string"
  file_kind :: "string \<rightharpoonup> path_kind"
  file_text :: "string \<rightharpoonup> string"

definition override ::
  "(string \<rightharpoonup> string) \<Rightarrow> string \<Rightarrow> (string \<Rightarrow> 'a option) \<Rightarrow> ('a \<Rightarrow> 'c \<Rightarrow> 'c) \<Rightarrow> 'c \<Rightarrow> 'c" where
  "override env name parse upd cfg =
     (case env name of
        None \<Rightarrow> cfg
      | Some v \<Rightarrow> (case parse v of None \<Rightarrow> cfg | Some x \<Rightarrow> upd x cfg))"

definition parse_word :: "string \<Rightarrow> u64 option" where
  "parse_word s = map_option of_nat (parse_uint 64 s)"

definition apply_env_overrides :: "(string \<rightharpoonup> string) \<Rightarrow> service_config \<Rightarrow> service_config" where
  "apply_env_overrides env cfg0 =
     (let
        cfg1 = override env ''REPROX_LISTEN_ADDR'' parse_socket_addr (\<lambda>a c. c\<lparr>listen_addr := a\<rparr>) cfg0;
        cfg2 = override env ''REPROX_TLS_CERT_PATH'' Some (\<lambda>v c. c\<lparr>tls_cert_path := v\<rparr>) cfg1;
        cfg3 = override env ''REPROX_TLS_KEY_PATH'' Some (\<lambda>v c. c\<lparr>tls_key_path := v\<rparr>) cfg2;
        cfg4 = override env ''REPROX_STATIC_DIR'' Some (\<lambda>v c. c\<lparr>static_dir := v\<rparr>) cfg3;
        cfg5 = override env ''REPROX_SERVER_HEADER'' Some (\<lambda>v c. c\<lparr>server_header := v\<rparr>) cfg4;
        cfg6 = override env ''REPROX_HANDSHAKE_TIMEOUT_SECS'' parse_word
                 (\<lambda>n c. c\<lparr>handshake_timeout_secs := n\<rparr>) cfg5;
        cfg7 = override env ''REPROX_TLS_MIN_VERSION'' Some (\<lambda>v c. c\<lparr>tls_min_version := v\<rparr>) cfg6;
        cfg8 = override env ''REPROX_METRICS_ADDR'' parse_socket_addr
                 (\<lambda>a c. c\<lparr>metrics_addr := Some a\<rparr>) cfg7;
        cfg9 = override env ''REPROX_MAX_CONNECTIONS'' parse_word (\<lambda>n c. c\<lparr>max_connections := n\<rparr>) cfg8;
        cfg10 = override env ''REPROX_MAX_CONNECTIONS_PER_IP'' parse_word
                  (\<lambda>n c. c\<lparr>max_connections_per_ip := Some n\<rparr>) cfg9;
        cfg11 = override env ''REPROX_CONNECTION_RATE_PER_IP'' parse_f64
                  (\<lambda>n c. c\<lparr>connection_rate_per_ip := Some n\<rparr>) cfg10;
        cfg12 = override env ''REPROX_CONNECTION_BURST_PER_IP'' parse_word
                  (\<lambda>n c. c\<lparr>connection_burst_per_ip := Some n\<rparr>) cfg11
      in cfg12)"


section \<open>Validation and loading\<close>

text \<open>The loop over the routes, with the names seen so far.\<close>

fun validate_routes :: "string set \<Rightarrow> proxy_target list \<Rightarrow> config_error + unit" where
  "validate_routes seen [] = Inr ()"
| "validate_routes seen (t # ts) =
     (if all_whitespace (sni t) \<or> all_whitespace (upstream t) then Inl RoutesEmptyString
      else if sni t \<in> seen then Inl (DuplicateSni (sni t))
      else rbind (map_err (InvalidUpstream (sni t)) (validate_upstream (upstream t))) (\<lambda>_.
           rbind (map_err (InvalidAlpn (sni t)) (validate_alpn_protocols (alpn_protocols t))) (\<lambda>_.
           validate_routes (insert (sni t) seen) ts)))"

definition validate :: "(string \<rightharpoonup> path_kind) \<Rightarrow> service_config \<Rightarrow> config_error + unit" where
  "validate kind cfg =
     rbind (validate_routes {} (routes cfg)) (\<lambda>_.
     rbind (ensure (start_handshake_timeout_secs cfg \<noteq> 0) StartHandshakeTimeoutZero) (\<lambda>_.
     rbind (ensure (handshake_timeout_secs cfg \<noteq> 0) HandshakeTimeoutZero) (\<lambda>_.
     rbind (ensure (kind (tls_cert_path cfg) = Some IsFile) (CertNotFound (tls_cert_path cfg))) (\<lambda>_.
     rbind (ensure (kind (tls_key_path cfg) = Some IsFile) (KeyNotFound (tls_key_path cfg))) (\<lambda>_.
     rbind (ensure (kind (static_dir cfg) = Some IsDir) (StaticDirNotFound (static_dir cfg))) (\<lambda>_.
     rbind (ensure (tls_min_version cfg = ''1.2'' \<or> tls_min_version cfg = ''1.3'')
              (BadTlsMinVersion (tls_min_version cfg))) (\<lambda>_.
     rbind (case metrics_addr cfg of
              Some addr \<Rightarrow> ensure (is_loopback (sa_ip addr)) (MetricsNotLoopback addr)
            | None \<Rightarrow> Inr ()) (\<lambda>_.
     rbind (ensure (max_connections cfg \<noteq> 0) MaxConnectionsZero) (\<lambda>_.
     rbind (case connection_rate_per_ip cfg of
              Some rate \<Rightarrow> ensure (f64_is_finite rate \<and> f64_less (Fin 0) rate) RateNotPositive
            | None \<Rightarrow> Inr ()) (\<lambda>_.
     (case connection_burst_per_ip cfg of
        Some burst \<Rightarrow> ensure (1 \<le> burst) BurstZero
      | None \<Rightarrow> Inr ())))))))))))"

definition normalize_sni :: "string \<Rightarrow> string" where
  "normalize_sni s = to_ascii_lowercase (trim_end_matches CHR ''.'' s)"

definition try_load :: "(string \<Rightarrow> raw_config option) \<Rightarrow> host \<Rightarrow> config_error + service_config" where
  "try_load toml_from_str h =
     (let path = or_default (env_var h ''REPROX_CONFIG'') ''config.toml'' in
      case file_text h path of
        None \<Rightarrow> Inl (ReadFailed path)
      | Some raw \<Rightarrow>
          (case toml_from_str raw of
             None \<Rightarrow> Inl (ParseFailed path)
           | Some r \<Rightarrow>
               let cfg = config_of_raw r;
                   cfg' = cfg\<lparr>routes := map (\<lambda>t. t\<lparr>sni := normalize_sni (sni t)\<rparr>) (routes cfg)\<rparr>;
                   cfg'' = apply_env_overrides (env_var h) cfg'
               in rbind (validate (file_kind h) cfg'') (\<lambda>_. Inr cfg'')))"


section \<open>Changes a reload cannot apply\<close>

datatype reload_warning =
  ListenAddrChanged | MetricsAddrChanged | TlsMinVersionChanged | MaxConnectionsChanged
| StaticDirChanged

definition warn_about_unreloadable_changes ::
  "service_config \<Rightarrow> service_config \<Rightarrow> reload_warning list" where
  "warn_about_unreloadable_changes cfg new =
     (if listen_addr cfg \<noteq> listen_addr new then [ListenAddrChanged] else [])
     @ (if metrics_addr cfg \<noteq> metrics_addr new then [MetricsAddrChanged] else [])
     @ (if tls_min_version cfg \<noteq> tls_min_version new then [TlsMinVersionChanged] else [])
     @ (if max_connections cfg \<noteq> max_connections new then [MaxConnectionsChanged] else [])
     @ (if \<not> path_eq (static_dir cfg) (static_dir new) then [StaticDirChanged] else [])"

lemma no_warning_iff:
  "warn_about_unreloadable_changes cfg new = [] \<longleftrightarrow>
    listen_addr cfg = listen_addr new \<and> metrics_addr cfg = metrics_addr new \<and>
    tls_min_version cfg = tls_min_version new \<and> max_connections cfg = max_connections new \<and>
    path_eq (static_dir cfg) (static_dir new)"
  by (simp add: warn_about_unreloadable_changes_def)

lemma warned_iff:
  "ListenAddrChanged \<in> set (warn_about_unreloadable_changes cfg new) \<longleftrightarrow> listen_addr cfg \<noteq> listen_addr new"
  "MetricsAddrChanged \<in> set (warn_about_unreloadable_changes cfg new) \<longleftrightarrow> metrics_addr cfg \<noteq> metrics_addr new"
  "TlsMinVersionChanged \<in> set (warn_about_unreloadable_changes cfg new) \<longleftrightarrow>
     tls_min_version cfg \<noteq> tls_min_version new"
  "MaxConnectionsChanged \<in> set (warn_about_unreloadable_changes cfg new) \<longleftrightarrow>
     max_connections cfg \<noteq> max_connections new"
  "StaticDirChanged \<in> set (warn_about_unreloadable_changes cfg new) \<longleftrightarrow>
     \<not> path_eq (static_dir cfg) (static_dir new)"
  by (simp_all add: warn_about_unreloadable_changes_def)

lemma warnings_distinct: "distinct (warn_about_unreloadable_changes cfg new)"
  by (simp add: warn_about_unreloadable_changes_def)


section \<open>Which upstreams are accepted\<close>

lemma host_char_plain: "host_char c \<Longrightarrow> plain_char c \<and> c \<noteq> CHR '':'' \<and> c \<noteq> CHR ''/''"
  by (auto simp: host_char_def plain_char_def Let_def)

lemma port_chars:
  assumes "parse_uint 16 p = Some n" and "c \<in> set p"
  shows "plain_char c" "c \<noteq> CHR '':''" "c \<noteq> CHR ''/''"
  using parse_uint_chars [OF assms] dec_digit_plain [of c]
  by (auto simp: plain_char_def dec_digit_def)

text \<open>A host name and a port pass every check on the way to the port.\<close>

lemma host_port_checks:
  assumes "list_all host_char h" and "parse_uint 16 p = Some n"
  shows "\<not> str_contains ''://'' (h @ CHR '':'' # p)" "\<not> any_whitespace (h @ CHR '':'' # p)"
    "rsplit_once CHR '':'' (h @ CHR '':'' # p) = Some (h, p)" "CHR ''/'' \<notin> set h"
proof -
  have h: "\<forall>c \<in> set h. plain_char c \<and> c \<noteq> CHR '':'' \<and> c \<noteq> CHR ''/''"
    using assms(1) host_char_plain by (auto simp: list_all_iff)
  show "CHR ''/'' \<notin> set h" using h by auto
  have slash: "CHR ''/'' \<notin> set (h @ CHR '':'' # p)"
    using h port_chars(3) [OF assms(2)] by auto
  then show "\<not> str_contains ''://'' (h @ CHR '':'' # p)"
    by (auto dest!: str_contains_set)
  have "\<forall>c \<in> set (h @ CHR '':'' # p). plain_char c"
    using h port_chars(1) [OF assms(2)] by (auto simp: plain_char_def)
  then show "\<not> any_whitespace (h @ CHR '':'' # p)" by (rule plain_no_whitespace)
  show "rsplit_once CHR '':'' (h @ CHR '':'' # p) = Some (h, p)"
    using port_chars(2) [OF assms(2)] by (auto simp: rsplit_once_Some_iff)
qed

lemma validate_upstream_host_port:
  assumes "h \<noteq> []" and "list_all host_char h" and "parse_uint 16 p = Some n" and "0 < n"
  shows "validate_upstream (h @ CHR '':'' # p) = Inr ()"
  using assms host_port_checks [OF assms(2,3)] by (simp add: validate_upstream_def)

lemma validate_upstream_cases:
  assumes "validate_upstream u = Inr ()"
  obtains a where "parse_socket_addr u = Some a" "sa_port a \<noteq> 0"
  | h p n where "u = h @ CHR '':'' # p" "h \<noteq> []" "list_all host_char h" "parse_uint 16 p = Some n" "0 < n"
proof (cases "case parse_socket_addr u of Some a \<Rightarrow> sa_port a \<noteq> 0 | None \<Rightarrow> False")
  case True
  then show ?thesis using that(1) by (auto split: option.splits)
next
  case False
  with assms obtain h p where "rsplit_once CHR '':'' u = Some (h, p)"
    and "h \<noteq> []" "list_all host_char h" "\<exists>n. parse_uint 16 p = Some n \<and> n \<noteq> 0"
    by (auto simp: validate_upstream_def split: if_splits option.splits)
  then show ?thesis using that(2) by (auto simp: rsplit_once_Some_iff)
qed


section \<open>Which ALPN lists are accepted\<close>

definition alpn_names_ok :: "bytes list \<Rightarrow> bool" where
  "alpn_names_ok ps =
     (distinct ps \<and> (\<forall>p \<in> set ps. p \<noteq> [] \<and> length p \<le> MAX_PROTOCOL_LEN))"

definition alpn_total :: "bytes list \<Rightarrow> nat" where
  "alpn_total ps = sum_list (map (\<lambda>p. 1 + length p) ps)"

lemma alpn_loop_Inr_iff:
  "alpn_loop i seen len ps = Inr n \<longleftrightarrow>
     alpn_names_ok ps \<and> set ps \<inter> seen = {} \<and> n = len + alpn_total ps"
  by (induction i seen len ps rule: alpn_loop.induct)
     (auto simp: alpn_names_ok_def alpn_total_def)

lemma validate_alpn_Some:
  "validate_alpn_protocols (Some ps) = Inr () \<longleftrightarrow>
     ps \<noteq> [] \<and> alpn_names_ok ps \<and> alpn_total ps \<le> MAX_LIST_LEN"
  by (auto simp: validate_alpn_protocols_def rbind_Inr_iff alpn_loop_Inr_iff)

lemma validate_alpn_None: "validate_alpn_protocols None = Inr ()"
  by (simp add: validate_alpn_protocols_def)

text \<open>The wire form of a list, which the limits protect: each name after a one-byte length.\<close>

definition alpn_wire :: "bytes list \<Rightarrow> bytes" where
  "alpn_wire ps = concat (map (\<lambda>p. char_of (length p) # p) ps)"

function alpn_unwire :: "bytes \<Rightarrow> bytes list option" where
  "alpn_unwire [] = Some []"
| "alpn_unwire (c # cs) =
     (let n = of_char c :: nat in
      if n \<le> length cs then map_option ((#) (take n cs)) (alpn_unwire (drop n cs)) else None)"
  by pat_completeness auto
termination
  by (relation "measure length") auto

lemma length_alpn_wire: "length (alpn_wire ps) = alpn_total ps"
  by (induction ps) (simp_all add: alpn_wire_def alpn_total_def)

lemma alpn_unwire_wire: "alpn_names_ok ps \<Longrightarrow> alpn_unwire (alpn_wire ps) = Some ps"
proof (induction ps)
  case Nil
  show ?case by (simp add: alpn_wire_def)
next
  case (Cons p ps)
  then have "alpn_unwire (alpn_wire ps) = Some ps" and "length p < 256"
    by (auto simp: alpn_names_ok_def MAX_PROTOCOL_LEN_def)
  then show ?case by (simp add: alpn_wire_def)
qed


section \<open>What the overrides do\<close>

text \<open>The value of a field after the override: the parsed variable when it is set and parses,
  the old value otherwise.\<close>

definition env_or :: "(string \<rightharpoonup> string) \<Rightarrow> string \<Rightarrow> (string \<Rightarrow> 'a option) \<Rightarrow> 'a \<Rightarrow> 'a" where
  "env_or env name parse d = or_default (Option.bind (env name) parse) d"

lemma override_other:
  "(\<And>x c. f (upd x c) = f c) \<Longrightarrow> f (override env name parse upd c) = f c"
  by (simp add: override_def split: option.splits)

lemma override_set:
  "(\<And>x c. f (upd x c) = g x) \<Longrightarrow>
   f (override env name parse upd c) = env_or env name (\<lambda>v. map_option g (parse v)) (f c)"
  by (simp add: override_def env_or_def or_default_def split: option.splits)

lemmas override_keeps =
  override_other [where f = listen_addr]
  override_other [where f = routes]
  override_other [where f = tls_cert_path]
  override_other [where f = tls_key_path]
  override_other [where f = static_dir]
  override_other [where f = server_header]
  override_other [where f = start_handshake_timeout_secs]
  override_other [where f = handshake_timeout_secs]
  override_other [where f = tls_min_version]
  override_other [where f = metrics_addr]
  override_other [where f = max_connections]
  override_other [where f = max_connections_per_ip]
  override_other [where f = connection_rate_per_ip]
  override_other [where f = connection_burst_per_ip]

lemma map_option_id_fun: "(\<lambda>v. map_option (\<lambda>x. x) (p v)) = p"
  by (simp add: option.map_ident)

lemma overrides_frame [simp]:
  "routes (apply_env_overrides env c) = routes c"
  "start_handshake_timeout_secs (apply_env_overrides env c) = start_handshake_timeout_secs c"
  by (simp_all add: apply_env_overrides_def Let_def override_keeps)

lemma overrides_fields:
  "listen_addr (apply_env_overrides env c) = env_or env ''REPROX_LISTEN_ADDR'' parse_socket_addr (listen_addr c)"
  "tls_cert_path (apply_env_overrides env c) = env_or env ''REPROX_TLS_CERT_PATH'' Some (tls_cert_path c)"
  "tls_key_path (apply_env_overrides env c) = env_or env ''REPROX_TLS_KEY_PATH'' Some (tls_key_path c)"
  "static_dir (apply_env_overrides env c) = env_or env ''REPROX_STATIC_DIR'' Some (static_dir c)"
  "server_header (apply_env_overrides env c) = env_or env ''REPROX_SERVER_HEADER'' Some (server_header c)"
  "handshake_timeout_secs (apply_env_overrides env c) =
     env_or env ''REPROX_HANDSHAKE_TIMEOUT_SECS'' parse_word (handshake_timeout_secs c)"
  "tls_min_version (apply_env_overrides env c) = env_or env ''REPROX_TLS_MIN_VERSION'' Some (tls_min_version c)"
  "max_connections (apply_env_overrides env c) =
     env_or env ''REPROX_MAX_CONNECTIONS'' parse_word (max_connections c)"
  by (simp_all add: apply_env_overrides_def Let_def override_keeps
      override_set [where f = listen_addr and g = "\<lambda>x. x"]
      override_set [where f = tls_cert_path and g = "\<lambda>x. x"]
      override_set [where f = tls_key_path and g = "\<lambda>x. x"]
      override_set [where f = static_dir and g = "\<lambda>x. x"]
      override_set [where f = server_header and g = "\<lambda>x. x"]
      override_set [where f = handshake_timeout_secs and g = "\<lambda>x. x"]
      override_set [where f = tls_min_version and g = "\<lambda>x. x"]
      override_set [where f = max_connections and g = "\<lambda>x. x"] map_option_id_fun option.map_ident)

lemma overrides_optional_fields:
  "metrics_addr (apply_env_overrides env c) =
     env_or env ''REPROX_METRICS_ADDR'' (map_option Some \<circ> parse_socket_addr) (metrics_addr c)"
  "max_connections_per_ip (apply_env_overrides env c) =
     env_or env ''REPROX_MAX_CONNECTIONS_PER_IP'' (map_option Some \<circ> parse_word) (max_connections_per_ip c)"
  "connection_rate_per_ip (apply_env_overrides env c) =
     env_or env ''REPROX_CONNECTION_RATE_PER_IP'' (map_option Some \<circ> parse_f64) (connection_rate_per_ip c)"
  "connection_burst_per_ip (apply_env_overrides env c) =
     env_or env ''REPROX_CONNECTION_BURST_PER_IP'' (map_option Some \<circ> parse_word) (connection_burst_per_ip c)"
  by (simp_all add: apply_env_overrides_def Let_def override_keeps comp_def
      override_set [where f = metrics_addr and g = Some]
      override_set [where f = max_connections_per_ip and g = Some]
      override_set [where f = connection_rate_per_ip and g = Some]
      override_set [where f = connection_burst_per_ip and g = Some])


section \<open>Which configurations are accepted\<close>

definition route_ok :: "proxy_target \<Rightarrow> bool" where
  "route_ok t =
     (\<not> all_whitespace (sni t) \<and> \<not> all_whitespace (upstream t) \<and>
      validate_upstream (upstream t) = Inr () \<and>
      validate_alpn_protocols (alpn_protocols t) = Inr ())"

definition wf_config :: "(string \<rightharpoonup> path_kind) \<Rightarrow> service_config \<Rightarrow> bool" where
  "wf_config kind cfg =
     (distinct (map sni (routes cfg)) \<and> list_all route_ok (routes cfg) \<and>
      start_handshake_timeout_secs cfg \<noteq> 0 \<and> handshake_timeout_secs cfg \<noteq> 0 \<and>
      kind (tls_cert_path cfg) = Some IsFile \<and> kind (tls_key_path cfg) = Some IsFile \<and>
      kind (static_dir cfg) = Some IsDir \<and>
      tls_min_version cfg \<in> {''1.2'', ''1.3''} \<and>
      (\<forall>a. metrics_addr cfg = Some a \<longrightarrow> is_loopback (sa_ip a)) \<and>
      max_connections cfg \<noteq> 0 \<and>
      (\<forall>r. connection_rate_per_ip cfg = Some r \<longrightarrow> (\<exists>q. r = Fin q \<and> 0 < q)) \<and>
      connection_burst_per_ip cfg \<noteq> Some 0)"

lemma validate_routes_Inr_iff:
  "validate_routes seen ts = Inr () \<longleftrightarrow>
     distinct (map sni ts) \<and> list_all route_ok ts \<and> sni ` set ts \<inter> seen = {}"
  by (induction seen ts rule: validate_routes.induct) (auto simp: rbind_Inr_iff route_ok_def)

lemma rate_ok_iff: "f64_is_finite r \<and> f64_less (Fin 0) r \<longleftrightarrow> (\<exists>q. r = Fin q \<and> 0 < q)"
  by (cases r) (simp_all add: f64_is_finite_def)

lemma word_ge_1_iff: "1 \<le> w \<longleftrightarrow> w \<noteq> 0" for w :: "'a::len word"
  by (simp add: word_le_nat_alt Suc_le_eq unat_gt_0)

lemma validate_Inr_iff: "validate kind cfg = Inr () \<longleftrightarrow> wf_config kind cfg"
  by (auto simp: validate_def wf_config_def rbind_ensure validate_routes_Inr_iff rbind_Inr_iff
      rate_ok_iff word_ge_1_iff split: option.splits if_splits)


section \<open>Normalised names\<close>

lemma trim_end_lower:
  "trim_end_matches CHR ''.'' (to_ascii_lowercase s) = to_ascii_lowercase (trim_end_matches CHR ''.'' s)"
  by (simp add: trim_end_matches_def to_ascii_lowercase_def rev_map dropWhile_map comp_def)

lemma normalize_sni_idem [simp]: "normalize_sni (normalize_sni s) = normalize_sni s"
  by (simp add: normalize_sni_def trim_end_lower)

lemma try_load_Inr:
  assumes "try_load toml h = Inr cfg"
  shows "wf_config (file_kind h) cfg" and "\<forall>t \<in> set (routes cfg). normalize_sni (sni t) = sni t"
  using assms
  by (auto simp: try_load_def Let_def rbind_Inr_iff validate_Inr_iff split: option.splits)


text \<open>The document after the normalisation of its names and the overrides, field by field.\<close>

lemma alpn_bytes: "deserialize_string_as_bytes alpn = alpn"
  by (cases alpn) (simp_all add: deserialize_string_as_bytes_def into_bytes_def map_idI)

lemma overridden_raw:
  "apply_env_overrides env ((config_of_raw r)\<lparr>routes :=
      map (\<lambda>t. t\<lparr>sni := normalize_sni (sni t)\<rparr>) (routes (config_of_raw r))\<rparr>) =
    \<lparr>listen_addr = env_or env ''REPROX_LISTEN_ADDR'' parse_socket_addr (raw_listen_addr r),
     routes = map (\<lambda>t.
       \<lparr>sni = normalize_sni (raw_sni t), upstream = raw_upstream t, alpn_protocols = raw_alpn t,
        tls_passthrough = or_default (raw_passthrough t) True\<rparr>) (raw_routes r),
     tls_cert_path = env_or env ''REPROX_TLS_CERT_PATH'' Some (raw_cert_path r),
     tls_key_path = env_or env ''REPROX_TLS_KEY_PATH'' Some (raw_key_path r),
     static_dir = env_or env ''REPROX_STATIC_DIR'' Some (raw_static_dir r),
     server_header = env_or env ''REPROX_SERVER_HEADER'' Some
       (or_default (raw_server_header r) default_server_header),
     start_handshake_timeout_secs = or_default (raw_start_timeout r) default_start_handshake_timeout,
     handshake_timeout_secs = env_or env ''REPROX_HANDSHAKE_TIMEOUT_SECS'' parse_word
       (or_default (raw_handshake_timeout r) default_handshake_timeout),
     tls_min_version = env_or env ''REPROX_TLS_MIN_VERSION'' Some
       (or_default (raw_tls_min_version r) default_tls_min_version),
     metrics_addr = env_or env ''REPROX_METRICS_ADDR''
       (map_option Some \<circ> parse_socket_addr) (raw_metrics_addr r),
     max_connections = env_or env ''REPROX_MAX_CONNECTIONS'' parse_word
       (or_default (raw_max_connections r) default_max_connections),
     max_connections_per_ip = env_or env ''REPROX_MAX_CONNECTIONS_PER_IP''
       (map_option Some \<circ> parse_word) (raw_max_per_ip r),
     connection_rate_per_ip = env_or env ''REPROX_CONNECTION_RATE_PER_IP''
       (map_option Some \<circ> parse_f64) (raw_rate r),
     connection_burst_per_ip = env_or env ''REPROX_CONNECTION_BURST_PER_IP''
       (map_option Some \<circ> parse_word) (raw_burst r)\<rparr>"
  by (rule service_config.equality)
     (simp_all add: overrides_fields overrides_optional_fields config_of_raw_def target_of_raw_def
       comp_def alpn_bytes default_tls_passthrough_def)

lemma try_load_Inr_iff:
  "try_load toml h = Inr cfg \<longleftrightarrow>
    (\<exists>text r. file_text h (or_default (env_var h ''REPROX_CONFIG'') ''config.toml'') = Some text \<and>
       toml text = Some r \<and>
       cfg = apply_env_overrides (env_var h) ((config_of_raw r)\<lparr>routes :=
         map (\<lambda>t. t\<lparr>sni := normalize_sni (sni t)\<rparr>) (routes (config_of_raw r))\<rparr>)) \<and>
    wf_config (file_kind h) cfg"
  by (auto simp: try_load_def Let_def rbind_Inr_iff validate_Inr_iff split: option.split)


section \<open>A sample configuration\<close>

text \<open>A host and a TOML document on which the definitions below are evaluated.\<close>

definition sample_raw :: raw_config where
  "sample_raw =
     \<lparr>raw_listen_addr = SocketAddr (V4 0 0 0 0) 443 0,
      raw_routes =
        [\<lparr>raw_sni = ''App.Example.'', raw_upstream = ''127.0.0.1:9000'', raw_alpn = None,
          raw_passthrough = None\<rparr>,
         \<lparr>raw_sni = ''b.example'', raw_upstream = ''backend:80'', raw_alpn = Some [''h2''],
          raw_passthrough = Some False\<rparr>],
      raw_cert_path = ''cert.pem'', raw_key_path = ''key.pem'', raw_static_dir = ''static'',
      raw_server_header = None, raw_start_timeout = None, raw_handshake_timeout = None,
      raw_tls_min_version = None,
      raw_metrics_addr = Some (SocketAddr (V4 127 0 0 1) 9100 0),
      raw_max_connections = Some 2, raw_max_per_ip = Some 1, raw_rate = Some (Fin 1), raw_burst = None\<rparr>"

definition sample_toml :: "string \<Rightarrow> raw_config option" where
  "sample_toml text = Some sample_raw"

definition sample_host :: host where
  "sample_host =
     \<lparr>env_var = [''REPROX_TLS_MIN_VERSION'' \<mapsto> ''1.3''],
      file_kind = [''cert.pem'' \<mapsto> IsFile, ''key.pem'' \<mapsto> IsFile, ''static'' \<mapsto> IsDir],
      file_text = [''config.toml'' \<mapsto> []]\<rparr>"

definition sample_config :: service_config where
  "sample_config =
     \<lparr>listen_addr = SocketAddr (V4 0 0 0 0) 443 0,
      routes =
        [\<lparr>sni = ''app.example'', upstream = ''127.0.0.1:9000'', alpn_protocols = None,
          tls_passthrough = True\<rparr>,
         \<lparr>sni = ''b.example'', upstream = ''backend:80'', alpn_protocols = Some [''h2''],
          tls_passthrough = False\<rparr>],
      tls_cert_path = ''cert.pem'', tls_key_path = ''key.pem'', static_dir = ''static'',
      server_header = ''nginx/1.26.2 (Ubuntu)'', start_handshake_timeout_secs = 10,
      handshake_timeout_secs = 10, tls_min_version = ''1.3'',
      metrics_addr = Some (SocketAddr (V4 127 0 0 1) 9100 0),
      max_connections = 2, max_connections_per_ip = Some 1, connection_rate_per_ip = Some (Fin 1),
      connection_burst_per_ip = None\<rparr>"

lemma sample_upstreams:
  "validate_upstream ''127.0.0.1:9000'' = Inr ()" "validate_upstream ''backend:80'' = Inr ()"
  by (simp_all add: validate_upstream_def std_simps host_char_def)

lemma sample_route_names:
  "normalize_sni ''App.Example.'' = ''app.example''" "normalize_sni ''b.example'' = ''b.example''"
  by (simp_all add: normalize_sni_def std_simps)

lemma sample_validates: "validate (file_kind sample_host) sample_config = Inr ()"
  by (simp add: validate_def sample_config_def sample_host_def sample_upstreams ensure_def
      validate_alpn_protocols_def MAX_PROTOCOL_LEN_def MAX_LIST_LEN_def std_simps)

lemma sample_loads: "try_load sample_toml sample_host = Inr sample_config"
proof -
  have "apply_env_overrides (env_var sample_host)
      ((config_of_raw sample_raw)\<lparr>routes := map (\<lambda>t. t\<lparr>sni := normalize_sni (sni t)\<rparr>)
        (routes (config_of_raw sample_raw))\<rparr>) = sample_config"
    by (simp add: apply_env_overrides_def override_def sample_host_def sample_config_def
        config_of_raw_def sample_raw_def target_of_raw_def or_default_def sample_route_names
        default_tls_passthrough_def deserialize_string_as_bytes_def into_bytes_def
        default_server_header_def default_start_handshake_timeout_def
        default_handshake_timeout_def default_tls_min_version_def)
  moreover have "file_text sample_host ''config.toml'' = Some []" "env_var sample_host ''REPROX_CONFIG'' = None"
    by (simp_all add: sample_host_def)
  ultimately show ?thesis
    using sample_validates by (simp add: try_load_def sample_toml_def or_default_def Let_def)
qed


section \<open>Properties\<close>

text \<open>
  C30: A configuration loads exactly when the file named by \<open>REPROX_CONFIG\<close>, or else \<open>config.toml\<close>, can
  be read and parsed, it is what that document and the environment say, and it is well-formed. What
  they say: every setting of the document, or its default when it has none, with the server names
  lower-cased and stripped of trailing dots, and with a setting replaced by its environment
  variable when that is set and parses; the routes and the timeout of the start of a handshake
  have no variable. Well-formed: the server names are pairwise distinct and not blank, upstreams and
  ALPN lists are acceptable, both timeouts and \<open>max_connections\<close> are positive, a rate that is set is
  finite and positive, a burst that is set is positive, certificate and key are files and the site a
  directory, the TLS version is 1.2 or 1.3, and a metrics address is a loopback address. Nothing is
  asked of \<open>max_connections_per_ip\<close>, where 0 disables the limit.
\<close>

theorem try_load_exact:
  "try_load toml h = Inr cfg \<longleftrightarrow>
    (\<exists>text r. file_text h (or_default (env_var h ''REPROX_CONFIG'') ''config.toml'') = Some text \<and>
       toml text = Some r \<and>
       cfg =
         \<lparr>listen_addr = env_or (env_var h) ''REPROX_LISTEN_ADDR'' parse_socket_addr (raw_listen_addr r),
          routes = map (\<lambda>t.
            \<lparr>sni = normalize_sni (raw_sni t), upstream = raw_upstream t, alpn_protocols = raw_alpn t,
             tls_passthrough = or_default (raw_passthrough t) True\<rparr>) (raw_routes r),
          tls_cert_path = env_or (env_var h) ''REPROX_TLS_CERT_PATH'' Some (raw_cert_path r),
          tls_key_path = env_or (env_var h) ''REPROX_TLS_KEY_PATH'' Some (raw_key_path r),
          static_dir = env_or (env_var h) ''REPROX_STATIC_DIR'' Some (raw_static_dir r),
          server_header = env_or (env_var h) ''REPROX_SERVER_HEADER'' Some
            (or_default (raw_server_header r) default_server_header),
          start_handshake_timeout_secs =
            or_default (raw_start_timeout r) default_start_handshake_timeout,
          handshake_timeout_secs = env_or (env_var h) ''REPROX_HANDSHAKE_TIMEOUT_SECS'' parse_word
            (or_default (raw_handshake_timeout r) default_handshake_timeout),
          tls_min_version = env_or (env_var h) ''REPROX_TLS_MIN_VERSION'' Some
            (or_default (raw_tls_min_version r) default_tls_min_version),
          metrics_addr = env_or (env_var h) ''REPROX_METRICS_ADDR''
            (map_option Some \<circ> parse_socket_addr) (raw_metrics_addr r),
          max_connections = env_or (env_var h) ''REPROX_MAX_CONNECTIONS'' parse_word
            (or_default (raw_max_connections r) default_max_connections),
          max_connections_per_ip = env_or (env_var h) ''REPROX_MAX_CONNECTIONS_PER_IP''
            (map_option Some \<circ> parse_word) (raw_max_per_ip r),
          connection_rate_per_ip = env_or (env_var h) ''REPROX_CONNECTION_RATE_PER_IP''
            (map_option Some \<circ> parse_f64) (raw_rate r),
          connection_burst_per_ip = env_or (env_var h) ''REPROX_CONNECTION_BURST_PER_IP''
            (map_option Some \<circ> parse_word) (raw_burst r)\<rparr>) \<and>
    distinct (map sni (routes cfg)) \<and>
    (\<forall>t \<in> set (routes cfg). \<not> all_whitespace (sni t) \<and> \<not> all_whitespace (upstream t) \<and>
       validate_upstream (upstream t) = Inr () \<and> validate_alpn_protocols (alpn_protocols t) = Inr ()) \<and>
    start_handshake_timeout_secs cfg \<noteq> 0 \<and> handshake_timeout_secs cfg \<noteq> 0 \<and>
    file_kind h (tls_cert_path cfg) = Some IsFile \<and> file_kind h (tls_key_path cfg) = Some IsFile \<and>
    file_kind h (static_dir cfg) = Some IsDir \<and>
    tls_min_version cfg \<in> {''1.2'', ''1.3''} \<and>
    (\<forall>a. metrics_addr cfg = Some a \<longrightarrow> is_loopback (sa_ip a)) \<and>
    max_connections cfg \<noteq> 0 \<and>
    (\<forall>rate. connection_rate_per_ip cfg = Some rate \<longrightarrow> (\<exists>q. rate = Fin q \<and> 0 < q)) \<and>
    connection_burst_per_ip cfg \<noteq> Some 0"
  unfolding try_load_Inr_iff wf_config_def overridden_raw list_all_iff route_ok_def by blast

lemma try_load_exact_witness:
  "tls_min_version sample_config = ''1.3'' \<and> raw_tls_min_version sample_raw = None \<and>
    connection_rate_per_ip sample_config = Some (Fin 1) \<and>
    validate_upstream ''127.0.0.1:9000'' = Inr () \<and> validate_upstream ''backend:80'' = Inr ()"
  using try_load_exact [THEN iffD1, OF sample_loads] by (simp add: sample_config_def sample_raw_def)

text \<open>
  C31: An upstream is accepted exactly when it is a socket address with a port other than 0, or a
  non-empty host name of letters, digits, dots, dashes and underscores, a colon, and a decimal
  port between 1 and 65535.
\<close>

theorem validate_upstream_exact:
  "validate_upstream u = Inr () \<longleftrightarrow>
    (case parse_socket_addr u of Some a \<Rightarrow> sa_port a \<noteq> 0 | None \<Rightarrow> False) \<or>
    (\<exists>h p n. u = h @ CHR '':'' # p \<and> h \<noteq> [] \<and> list_all host_char h \<and>
       parse_uint 16 p = Some n \<and> 0 < n)"
proof
  assume "validate_upstream u = Inr ()"
  then show "(case parse_socket_addr u of Some a \<Rightarrow> sa_port a \<noteq> 0 | None \<Rightarrow> False) \<or>
    (\<exists>h p n. u = h @ CHR '':'' # p \<and> h \<noteq> [] \<and> list_all host_char h \<and>
       parse_uint 16 p = Some n \<and> 0 < n)"
    by (rule validate_upstream_cases) auto
next
  assume "(case parse_socket_addr u of Some a \<Rightarrow> sa_port a \<noteq> 0 | None \<Rightarrow> False) \<or>
    (\<exists>h p n. u = h @ CHR '':'' # p \<and> h \<noteq> [] \<and> list_all host_char h \<and>
       parse_uint 16 p = Some n \<and> 0 < n)"
  then show "validate_upstream u = Inr ()"
  proof
    assume "case parse_socket_addr u of Some a \<Rightarrow> sa_port a \<noteq> 0 | None \<Rightarrow> False"
    then show ?thesis by (simp add: validate_upstream_def)
  qed (auto intro: validate_upstream_host_port)
qed

text \<open>
  C32: A list of ALPN names is accepted exactly when it is non-empty, has no duplicates, every
  name has 1 to 255 bytes and the encoded list has at most 65535; the wire form of an accepted
  list decodes to the list.
\<close>

theorem alpn_accepted:
  "(validate_alpn_protocols (Some ps) = Inr () \<longleftrightarrow>
      ps \<noteq> [] \<and> distinct ps \<and> list_all (\<lambda>p. p \<noteq> [] \<and> length p \<le> 255) ps \<and>
      length (alpn_wire ps) \<le> 65535) \<and>
   (validate_alpn_protocols (Some ps) = Inr () \<longrightarrow> alpn_unwire (alpn_wire ps) = Some ps)"
  by (auto simp: validate_alpn_Some alpn_names_ok_def length_alpn_wire MAX_PROTOCOL_LEN_def
      MAX_LIST_LEN_def list_all_iff intro: alpn_unwire_wire)

lemma alpn_accepted_witness: "alpn_unwire (alpn_wire [''h2'', ''http/1.1'']) = Some [''h2'', ''http/1.1'']"
proof -
  have "validate_alpn_protocols (Some [''h2'', ''http/1.1'']) = Inr ()"
    by (simp add: validate_alpn_Some alpn_names_ok_def alpn_total_def MAX_PROTOCOL_LEN_def MAX_LIST_LEN_def)
  then show ?thesis using alpn_accepted [of "[''h2'', ''http/1.1'']"] by blast
qed

text \<open>
  An environment variable replaces its field when it is set and parses, and otherwise leaves
  it alone; the routes and \<open>start_handshake_timeout_secs\<close> have no variable and never change.
\<close>

lemma env_overrides_exact:
  "let c' = apply_env_overrides env c in
    routes c' = routes c \<and>
    start_handshake_timeout_secs c' = start_handshake_timeout_secs c \<and>
    listen_addr c' = env_or env ''REPROX_LISTEN_ADDR'' parse_socket_addr (listen_addr c) \<and>
    tls_cert_path c' = env_or env ''REPROX_TLS_CERT_PATH'' Some (tls_cert_path c) \<and>
    tls_key_path c' = env_or env ''REPROX_TLS_KEY_PATH'' Some (tls_key_path c) \<and>
    static_dir c' = env_or env ''REPROX_STATIC_DIR'' Some (static_dir c) \<and>
    server_header c' = env_or env ''REPROX_SERVER_HEADER'' Some (server_header c) \<and>
    handshake_timeout_secs c' =
      env_or env ''REPROX_HANDSHAKE_TIMEOUT_SECS'' parse_word (handshake_timeout_secs c) \<and>
    tls_min_version c' = env_or env ''REPROX_TLS_MIN_VERSION'' Some (tls_min_version c) \<and>
    metrics_addr c' =
      env_or env ''REPROX_METRICS_ADDR'' (map_option Some \<circ> parse_socket_addr) (metrics_addr c) \<and>
    max_connections c' = env_or env ''REPROX_MAX_CONNECTIONS'' parse_word (max_connections c) \<and>
    max_connections_per_ip c' =
      env_or env ''REPROX_MAX_CONNECTIONS_PER_IP'' (map_option Some \<circ> parse_word) (max_connections_per_ip c) \<and>
    connection_rate_per_ip c' =
      env_or env ''REPROX_CONNECTION_RATE_PER_IP'' (map_option Some \<circ> parse_f64) (connection_rate_per_ip c) \<and>
    connection_burst_per_ip c' =
      env_or env ''REPROX_CONNECTION_BURST_PER_IP'' (map_option Some \<circ> parse_word) (connection_burst_per_ip c)"
  unfolding Let_def by (intro conjI overrides_frame overrides_fields overrides_optional_fields)

end
