(* ===== verification/Tls.thy ===== *)
theory Tls
  imports Config
begin

text \<open>
  \<open>src/tls.rs\<close>: loading the certificate and key, the resolver whose certificate a reload swaps, and
  the \<open>ServerConfig\<close> of a TLS acceptor. Parameters of the model are the file system, the PEM parser
  and rustls' key provider (one record, \<open>tls_provider\<close>) and which protocol versions that
  provider supports. A \<open>ServerConfig\<close> refers to its resolver through an \<open>Arc\<close>; the resolvers of the
  process therefore live in a store, and a configuration holds an address of it.
\<close>

record ('cert, 'skey) certified_key =
  key_certs :: "'cert list"
  key_signing :: 'skey

record ('cert, 'der, 'skey) tls_provider =
  fs_read :: "string \<Rightarrow> bytes option"
  pem_reader_iter :: "bytes \<Rightarrow> 'cert option list"
  from_pem_reader :: "bytes \<Rightarrow> 'der option"
  load_private_key :: "'der \<Rightarrow> 'skey option"
  keys_match :: "('cert, 'skey) certified_key \<Rightarrow> bool"

datatype tls_error =
  CertOpenFailed string | CertParseFailed string | NoCertificates string
| KeyOpenFailed string | KeyParseFailed string | KeyNotValid string
| KeyMismatch string string | VersionsNotSupported

section \<open>Loading the certificate and the key\<close>

text \<open>Collecting an iterator of results: all of them, or the first failure.\<close>

fun collect_results :: "'a option list \<Rightarrow> 'a list option" where
  "collect_results [] = Some []"
| "collect_results (None # xs) = None"
| "collect_results (Some x # xs) = map_option ((#) x) (collect_results xs)"

lemma collect_results_iff: "collect_results xs = Some ys \<longleftrightarrow> xs = map Some ys"
  by (induction xs arbitrary: ys rule: collect_results.induct) (auto simp: map_eq_Cons_conv)

lemma collect_results_Some [simp]: "collect_results (map Some xs) = Some xs"
  by (simp add: collect_results_iff)

definition load_certs ::
  "('cert, 'der, 'skey) tls_provider \<Rightarrow> string \<Rightarrow> tls_error + 'cert list" where
  "load_certs p path =
     (case fs_read p path of
        None \<Rightarrow> Inl (CertOpenFailed path)
      | Some buffer \<Rightarrow>
          (case collect_results (pem_reader_iter p buffer) of
             None \<Rightarrow> Inl (CertParseFailed path)
           | Some certs \<Rightarrow> if certs = [] then Inl (NoCertificates path) else Inr certs))"

definition load_key :: "('cert, 'der, 'skey) tls_provider \<Rightarrow> string \<Rightarrow> tls_error + 'der" where
  "load_key p path =
     (case fs_read p path of
        None \<Rightarrow> Inl (KeyOpenFailed path)
      | Some buffer \<Rightarrow>
          (case from_pem_reader p buffer of
             None \<Rightarrow> Inl (KeyParseFailed path)
           | Some der \<Rightarrow> Inr der))"

definition load_certified_key ::
  "('cert, 'der, 'skey) tls_provider \<Rightarrow> string \<Rightarrow> string \<Rightarrow> tls_error + ('cert, 'skey) certified_key" where
  "load_certified_key p cert_path key_path =
     rbind (load_certs p cert_path) (\<lambda>certs.
     rbind (load_key p key_path) (\<lambda>key_der.
     case load_private_key p key_der of
       None \<Rightarrow> Inl (KeyNotValid key_path)
     | Some signing_key \<Rightarrow>
         let ck = \<lparr>key_certs = certs, key_signing = signing_key\<rparr>
         in if keys_match p ck then Inr ck else Inl (KeyMismatch key_path cert_path)))"

lemma load_certs_Inr_iff:
  "load_certs p path = Inr certs \<longleftrightarrow>
    (\<exists>buffer. fs_read p path = Some buffer \<and> pem_reader_iter p buffer = map Some certs \<and> certs \<noteq> [])"
  by (auto simp: load_certs_def collect_results_iff split: option.splits)

lemma load_key_Inr_iff:
  "load_key p path = Inr der \<longleftrightarrow>
    (\<exists>buffer. fs_read p path = Some buffer \<and> from_pem_reader p buffer = Some der)"
  by (auto simp: load_key_def split: option.splits)

lemma load_certified_key_Inr_iff:
  "load_certified_key p cert_path key_path = Inr ck \<longleftrightarrow>
    load_certs p cert_path = Inr (key_certs ck) \<and>
    (\<exists>der. load_key p key_path = Inr der \<and> load_private_key p der = Some (key_signing ck)) \<and>
    keys_match p ck"
proof -
  have ck: "\<lparr>key_certs = key_certs ck, key_signing = key_signing ck\<rparr> = ck" by simp
  show ?thesis
  proof
    assume "load_certified_key p cert_path key_path = Inr ck"
    then show "load_certs p cert_path = Inr (key_certs ck) \<and>
      (\<exists>der. load_key p key_path = Inr der \<and> load_private_key p der = Some (key_signing ck)) \<and>
      keys_match p ck"
      by (auto simp: load_certified_key_def rbind_Inr_iff Let_def split: option.splits if_splits)
  next
    assume "load_certs p cert_path = Inr (key_certs ck) \<and>
      (\<exists>der. load_key p key_path = Inr der \<and> load_private_key p der = Some (key_signing ck)) \<and>
      keys_match p ck"
    then show "load_certified_key p cert_path key_path = Inr ck"
      by (auto simp: load_certified_key_def Let_def ck)
  qed
qed


section \<open>The reloadable resolver\<close>

record ('cert, 'skey) reloadable_cert_resolver =
  cert_key :: "('cert, 'skey) certified_key"

definition cert_resolver_new ::
  "('cert, 'skey) certified_key \<Rightarrow> ('cert, 'skey) reloadable_cert_resolver" where
  "cert_resolver_new key = \<lparr>cert_key = key\<rparr>"

definition cert_resolver_update ::
  "('cert, 'skey) certified_key \<Rightarrow> ('cert, 'skey) reloadable_cert_resolver
    \<Rightarrow> ('cert, 'skey) reloadable_cert_resolver" where
  "cert_resolver_update key r = r\<lparr>cert_key := key\<rparr>"

text \<open>The ClientHello is not looked at: every handshake gets the current certificate.\<close>

definition cert_resolver_resolve ::
  "('cert, 'skey) reloadable_cert_resolver \<Rightarrow> 'hello \<Rightarrow> ('cert, 'skey) certified_key option" where
  "cert_resolver_resolve r client_hello = Some (cert_key r)"

lemma resolve_update [simp]:
  "cert_resolver_resolve (cert_resolver_update key r) hello = Some key"
  "cert_resolver_resolve (cert_resolver_new key) hello = Some key"
  by (simp_all add: cert_resolver_resolve_def cert_resolver_update_def cert_resolver_new_def)

text \<open>The resolvers behind \<open>Arc\<close>s, by address.\<close>

type_synonym resolver_ref = nat
type_synonym ('cert, 'skey) resolvers = "resolver_ref \<Rightarrow> ('cert, 'skey) reloadable_cert_resolver option"

definition build_cert_resolver ::
  "('cert, 'der, 'skey) tls_provider \<Rightarrow> service_config
    \<Rightarrow> tls_error + ('cert, 'skey) reloadable_cert_resolver" where
  "build_cert_resolver p cfg =
     rbind (load_certified_key p (tls_cert_path cfg) (tls_key_path cfg))
       (\<lambda>ck. Inr (cert_resolver_new ck))"


section \<open>The server configuration\<close>

datatype protocol_version = TLS12 | TLS13

record server_config =
  sc_versions :: "protocol_version list"
  sc_resolver :: resolver_ref
  sc_alpn :: "bytes list"

definition tls_versions :: "service_config \<Rightarrow> protocol_version list" where
  "tls_versions cfg = (if tls_min_version cfg = ''1.3'' then [TLS13] else [TLS12, TLS13])"

definition build_server_config ::
  "(protocol_version list \<Rightarrow> bool) \<Rightarrow> resolver_ref \<Rightarrow> bytes list \<Rightarrow> service_config
    \<Rightarrow> tls_error + server_config" where
  "build_server_config versions_ok resolver alpn cfg =
     (let versions = tls_versions cfg in
      if versions_ok versions
      then Inr \<lparr>sc_versions = versions, sc_resolver = resolver, sc_alpn = alpn\<rparr>
      else Inl VersionsNotSupported)"

lemma build_cert_resolver_key: "build_cert_resolver p cfg = Inr r \<Longrightarrow>
    load_certified_key p (tls_cert_path cfg) (tls_key_path cfg) = Inr (cert_key r)"
  by (auto simp: build_cert_resolver_def rbind_Inr_iff cert_resolver_new_def)

text \<open>What rustls' default provider promises: both version lists can be configured.\<close>

definition provider_supports :: "(protocol_version list \<Rightarrow> bool) \<Rightarrow> bool" where
  "provider_supports versions_ok \<longleftrightarrow> versions_ok [TLS13] \<and> versions_ok [TLS12, TLS13]"

lemma build_server_config_ok:
  assumes "provider_supports versions_ok"
  shows "build_server_config versions_ok resolver alpn cfg =
    Inr \<lparr>sc_versions = tls_versions cfg, sc_resolver = resolver, sc_alpn = alpn\<rparr>"
  using assms by (simp add: build_server_config_def provider_supports_def tls_versions_def)

lemma tls_versions_floor: "TLS13 \<in> set (tls_versions cfg)"
  "TLS12 \<in> set (tls_versions cfg) \<longleftrightarrow> tls_min_version cfg \<noteq> ''1.3''"
  by (simp_all add: tls_versions_def)

text \<open>
  The certificate of a handshake under a server configuration. rustls calls \<open>resolve\<close> of the resolver
  given to \<open>with_cert_resolver\<close> once per handshake, and presents what it returns; the resolvers are
  shared, so what a handshake presents is looked up in the store of their current values. The
  outcome of a handshake (\<open>handshake\<close> below) is a parameter that stands for what the client makes of
  that certificate as well.
\<close>

definition presented ::
  "('cert, 'skey) resolvers \<Rightarrow> server_config \<Rightarrow> 'hello \<Rightarrow> ('cert, 'skey) certified_key option" where
  "presented rs sc hello =
     (case rs (sc_resolver sc) of None \<Rightarrow> None | Some r \<Rightarrow> cert_resolver_resolve r hello)"


section \<open>Handshakes\<close>

text \<open>What \<open>timeout(d, acceptor.into_stream(server_config))\<close> returns: the stream with the protocol
  rustls negotiated, a TLS error, or the timeout.\<close>

datatype handshake_outcome =
  Handshake_ok "bytes option" | Handshake_error | Handshake_timeout

type_synonym handshake = "nat \<Rightarrow> server_config \<Rightarrow> handshake_outcome"



section \<open>Properties\<close>

text \<open>A provider of one certificate and its key, for evaluating the definitions.\<close>

definition sample_provider :: "(nat, nat, nat) tls_provider" where
  "sample_provider =
     \<lparr>fs_read = (\<lambda>_. Some []), pem_reader_iter = (\<lambda>_. [Some 1]), from_pem_reader = (\<lambda>_. Some 2),
      load_private_key = (\<lambda>d. Some d), keys_match = (\<lambda>_. True)\<rparr>"

text \<open>
  A certificate and key load exactly when both files can be read, the certificate file holds at
  least one certificate and only well-formed ones, the key file holds a key the provider accepts,
  and the two match; the result carries those certificates and that key.
\<close>

lemma load_certified_key_exact:
  "load_certified_key p cert_path key_path = Inr ck \<longleftrightarrow>
    (\<exists>cert_file key_file der.
       fs_read p cert_path = Some cert_file \<and>
       pem_reader_iter p cert_file = map Some (key_certs ck) \<and> key_certs ck \<noteq> [] \<and>
       fs_read p key_path = Some key_file \<and> from_pem_reader p key_file = Some der \<and>
       load_private_key p der = Some (key_signing ck) \<and> keys_match p ck)"
  by (auto simp: load_certified_key_Inr_iff load_certs_Inr_iff load_key_Inr_iff)

text \<open>
  A server configuration built on a resolver presents, from the moment the resolver is updated,
  the new certificate in every handshake, whatever the client sends, and no other configuration
  changes; it offers TLS 1.3, and TLS 1.2 unless the minimum version is 1.3.
\<close>

lemma update_reaches_handshakes:
  assumes "build_server_config versions_ok r alpn cfg = Inr sc" "rs r = Some res"
  shows "presented (rs(r \<mapsto> cert_resolver_update key res)) sc hello = Some key \<and>
    (sc_resolver sc' \<noteq> r \<longrightarrow>
       presented (rs(r \<mapsto> cert_resolver_update key res)) sc' hello = presented rs sc' hello) \<and>
    sc_alpn sc = alpn \<and> TLS13 \<in> set (sc_versions sc) \<and>
    (TLS12 \<in> set (sc_versions sc) \<longleftrightarrow> tls_min_version cfg \<noteq> ''1.3'')"
  using assms by (auto simp: build_server_config_def presented_def tls_versions_def Let_def split: if_splits)

end
