(* ===== verification/Http_Util.thy ===== *)
theory Http_Util
  imports Std_Str
begin

text \<open>
  \<open>src/http_util.rs\<close> and the parts of the \<open>http\<close> crate's data both HTTP servers of the program build:
  response bodies, and responses as a status code, headers by lower-case name, and a body.
\<close>

type_synonym response_body = bytes
type_synonym headers = "string \<Rightarrow> string option"

record response =
  status :: nat
  resp_headers :: headers
  resp_body :: response_body

definition empty_body :: response_body where
  "empty_body = []"

definition full_body :: "bytes \<Rightarrow> response_body" where
  "full_body bs = bs"

record http_request =
  req_method :: string
  req_path :: string
  req_if_none_match :: "bytes option"

end
