(* ===== verification/Http_Serve.thy ===== *)
theory Http_Serve
  imports Stats Static_Site Tls Http_Util
begin

text \<open>
  \<open>src/route/serve.rs\<close>: the fallback HTTPS site. \<open>serve\<close> completes the TLS handshake within its
  timeout, records the outcome and the negotiated protocol, and serves the requests of the
  connection; \<open>handle_http\<close> answers one request and records its method, status and length.

  Parameters are the outcome of the handshake (rustls), the requests hyper reads from the
  connection, and, in the record \<open>http_lib\<close>, percent-decoding, date formatting and what the
  \<open>http\<close> crate accepts as a header value. \<open>http_lib_ok\<close> is what the crate documents of
  \<open>HeaderValue::to_str\<close>.
\<close>

record http_lib =
  percent_decode_lossy :: "string \<Rightarrow> string"
  fmt_http_date :: "int \<Rightarrow> string"
  http_date_ok :: "int \<Rightarrow> bool"
  header_value_from_str :: "string \<Rightarrow> bool"
  header_to_str :: "bytes \<Rightarrow> string option"

text \<open>
  \<open>httpdate::fmt_http_date\<close>: the text for a time it can format; for any other time, one before the
  epoch say, it panics. The files of the site can have any time; the \<open>date\<close> header takes
  \<open>fmt_http_date\<close> of the current time, which is taken to be one it can format.
\<close>

definition http_date :: "http_lib \<Rightarrow> int \<Rightarrow> string option" where
  "http_date lib t = (if http_date_ok lib t then Some (fmt_http_date lib t) else None)"

definition visible_ascii :: "char \<Rightarrow> bool" where
  "visible_ascii c = (let n = of_char c :: nat in 32 \<le> n \<and> n < 127 \<or> n = 9)"

definition http_lib_ok :: "http_lib \<Rightarrow> bool" where
  "http_lib_ok lib \<longleftrightarrow>
     (\<forall>v. header_to_str lib v = (if list_all visible_ascii v then Some v else None))"


section \<open>Responses\<close>

definition cache_control_for :: "string \<Rightarrow> string" where
  "cache_control_for ct =
     (if starts_with ''text/html'' ct then ''no-cache'' else ''public, max-age=2592000, immutable'')"

definition apply_common_headers :: "http_lib \<Rightarrow> int \<Rightarrow> service_config \<Rightarrow> headers \<Rightarrow> headers" where
  "apply_common_headers lib now cfg h =
     (let h1 = (if header_value_from_str lib (server_header cfg)
                then h(''server'' \<mapsto> server_header cfg) else h);
          h2 = (if header_value_from_str lib (fmt_http_date lib now)
                then h1(''date'' \<mapsto> fmt_http_date lib now) else h1);
          h3 = h2(''strict-transport-security'' \<mapsto> ''max-age=63072000; includeSubDomains; preload'');
          h4 = h3(''x-content-type-options'' \<mapsto> ''nosniff'');
          h5 = h4(''x-frame-options'' \<mapsto> ''SAMEORIGIN'');
          h6 = h5(''referrer-policy'' \<mapsto> ''strict-origin-when-cross-origin'')
      in h6)"

definition not_modified_response ::
  "http_lib \<Rightarrow> int \<Rightarrow> file_entry \<Rightarrow> service_config \<Rightarrow> response" where
  "not_modified_response lib now entry cfg =
     \<lparr>status = 304,
      resp_headers = apply_common_headers lib now cfg
        [''etag'' \<mapsto> etag entry, ''last-modified'' \<mapsto> last_modified entry],
      resp_body = empty_body\<rparr>"

definition file_response ::
  "http_lib \<Rightarrow> int \<Rightarrow> http_request \<Rightarrow> file_entry \<Rightarrow> service_config \<Rightarrow> response" where
  "file_response lib now req entry cfg =
     (if (case req_if_none_match req of
            None \<Rightarrow> False
          | Some inm \<Rightarrow> (case header_to_str lib inm of None \<Rightarrow> False | Some v \<Rightarrow> v = etag entry))
      then not_modified_response lib now entry cfg
      else
        let body = (if req_method req = ''HEAD'' then empty_body else full_body (fe_bytes entry))
        in \<lparr>status = 200,
            resp_headers = apply_common_headers lib now cfg
              [''content-type'' \<mapsto> content_type entry,
               ''content-length'' \<mapsto> show_nat (length (fe_bytes entry)),
               ''etag'' \<mapsto> etag entry,
               ''last-modified'' \<mapsto> last_modified entry,
               ''cache-control'' \<mapsto> cache_control_for (content_type entry)],
            resp_body = body\<rparr>)"

definition not_found_response ::
  "http_lib \<Rightarrow> int \<Rightarrow> string \<Rightarrow> static_site \<Rightarrow> service_config \<Rightarrow> response" where
  "not_found_response lib now meth site cfg =
     (let entry = not_found site;
          body = (if meth = ''HEAD'' then empty_body else full_body (fe_bytes entry))
      in \<lparr>status = 404,
          resp_headers = apply_common_headers lib now cfg
            [''content-type'' \<mapsto> content_type entry,
             ''content-length'' \<mapsto> show_nat (length (fe_bytes entry)),
             ''cache-control'' \<mapsto> ''no-cache''],
          resp_body = body\<rparr>)"

definition options_response :: "http_lib \<Rightarrow> int \<Rightarrow> service_config \<Rightarrow> response" where
  "options_response lib now cfg =
     \<lparr>status = 204,
      resp_headers = apply_common_headers lib now cfg
        [''allow'' \<mapsto> ''GET, HEAD, OPTIONS'', ''content-length'' \<mapsto> ''0''],
      resp_body = empty_body\<rparr>"

definition NOT_ALLOWED_HTML :: string where
  "NOT_ALLOWED_HTML =
     ''<!doctype html><html><head><title>405 Not Allowed</title></head>'' @
     ''<body><center><h1>405 Not Allowed</h1></center></body></html>''"

definition method_not_allowed_response :: "http_lib \<Rightarrow> int \<Rightarrow> service_config \<Rightarrow> response" where
  "method_not_allowed_response lib now cfg =
     \<lparr>status = 405,
      resp_headers = apply_common_headers lib now cfg
        [''content-type'' \<mapsto> ''text/html; charset=utf-8'',
         ''allow'' \<mapsto> ''GET, HEAD, OPTIONS'',
         ''content-length'' \<mapsto> show_nat (length NOT_ALLOWED_HTML)],
      resp_body = full_body NOT_ALLOWED_HTML\<rparr>"


section \<open>Metrics of a request\<close>

definition count_method :: "string \<Rightarrow> stats \<Rightarrow> stats" where
  "count_method meth st =
     (if meth = ''GET'' then st\<lparr>http_method_get_total := http_method_get_total st + 1\<rparr>
      else if meth = ''HEAD'' then st\<lparr>http_method_head_total := http_method_head_total st + 1\<rparr>
      else if meth = ''OPTIONS'' then st\<lparr>http_method_options_total := http_method_options_total st + 1\<rparr>
      else st\<lparr>http_method_other_total := http_method_other_total st + 1\<rparr>)"

definition count_status :: "nat \<Rightarrow> stats \<Rightarrow> stats" where
  "count_status code st =
     (if code = 200 then st\<lparr>http_status_200_total := http_status_200_total st + 1\<rparr>
      else if code = 204 then st\<lparr>http_status_204_total := http_status_204_total st + 1\<rparr>
      else if code = 304 then st\<lparr>http_status_304_total := http_status_304_total st + 1\<rparr>
      else if code = 404 then st\<lparr>http_status_404_total := http_status_404_total st + 1\<rparr>
      else if code = 405 then st\<lparr>http_status_405_total := http_status_405_total st + 1\<rparr>
      else st\<lparr>http_status_other_total := http_status_other_total st + 1\<rparr>)"

definition content_length_of :: "http_lib \<Rightarrow> response \<Rightarrow> nat option" where
  "content_length_of lib resp =
     Option.bind (resp_headers resp ''content-length'') (\<lambda>v.
     Option.bind (header_to_str lib v) (parse_uint 64))"

definition record_response_metrics :: "http_lib \<Rightarrow> stats \<Rightarrow> response \<Rightarrow> stats" where
  "record_response_metrics lib st resp =
     (let st' = count_status (status resp) st in
      case content_length_of lib resp of
        None \<Rightarrow> st'
      | Some len \<Rightarrow> st'\<lparr>http_bytes_sent_total := http_bytes_sent_total st' + of_nat len\<rparr>)"


section \<open>One request\<close>

definition respond :: "http_lib \<Rightarrow> int \<Rightarrow> http_request \<Rightarrow> static_site \<Rightarrow> service_config \<Rightarrow> response" where
  "respond lib now req site cfg =
     (let meth = req_method req in
      if meth = ''OPTIONS'' then options_response lib now cfg
      else if meth \<noteq> ''GET'' \<and> meth \<noteq> ''HEAD'' then method_not_allowed_response lib now cfg
      else
        let decoded = percent_decode_lossy lib (req_path req)
        in (case resolve site decoded of
              Some entry \<Rightarrow> file_response lib now req entry cfg
            | None \<Rightarrow> not_found_response lib now meth site cfg))"

definition handle_http ::
  "http_lib \<Rightarrow> int \<Rightarrow> http_request \<Rightarrow> static_site \<Rightarrow> service_config \<Rightarrow> stats \<Rightarrow> response \<times> stats" where
  "handle_http lib now req site cfg st =
     (let st1 = count_method (req_method req) st;
          resp = respond lib now req site cfg
      in (resp, record_response_metrics lib st1 resp))"

text \<open>The requests of a connection, each with the time it is answered.\<close>

fun handle_all ::
  "http_lib \<Rightarrow> static_site \<Rightarrow> service_config \<Rightarrow> (int \<times> http_request) list \<Rightarrow> stats
    \<Rightarrow> response list \<times> stats" where
  "handle_all lib site cfg [] st = ([], st)"
| "handle_all lib site cfg ((now, req) # reqs) st =
     (let (resp, st1) = handle_http lib now req site cfg st;
          (resps, st2) = handle_all lib site cfg reqs st1
      in (resp # resps, st2))"


section \<open>One connection\<close>

datatype http_protocol = Http1_with_upgrades | Http2

definition count_alpn :: "bytes option \<Rightarrow> stats \<Rightarrow> stats" where
  "count_alpn alpn st =
     (if alpn = Some ''h2'' then st\<lparr>fallback_alpn_h2_total := fallback_alpn_h2_total st + 1\<rparr>
      else if alpn = Some ''http/1.1'' then st\<lparr>fallback_alpn_http1_total := fallback_alpn_http1_total st + 1\<rparr>
      else st\<lparr>fallback_alpn_none_total := fallback_alpn_none_total st + 1\<rparr>)"

definition serve ::
  "http_lib \<Rightarrow> handshake \<Rightarrow> server_config \<Rightarrow> static_site \<Rightarrow> service_config
    \<Rightarrow> (int \<times> http_request) list \<Rightarrow> stats \<Rightarrow> (http_protocol \<times> response list) option \<times> stats" where
  "serve lib handshake sc site cfg reqs st =
     (let handshake_timeout = dur_from_secs (unat (handshake_timeout_secs cfg)) in
      case handshake handshake_timeout sc of
        Handshake_ok alpn \<Rightarrow>
          let st1 = st\<lparr>fallback_tls_handshake_success_total := fallback_tls_handshake_success_total st + 1\<rparr>;
              st2 = count_alpn alpn st1;
              (resps, st3) = handle_all lib site cfg reqs st2
          in (Some (if alpn = Some ''h2'' then Http2 else Http1_with_upgrades, resps), st3)
      | Handshake_error \<Rightarrow>
          (None, st\<lparr>fallback_tls_handshake_failure_total := fallback_tls_handshake_failure_total st + 1\<rparr>)
      | Handshake_timeout \<Rightarrow>
          (None, st\<lparr>fallback_tls_handshake_failure_total := fallback_tls_handshake_failure_total st + 1\<rparr>))"


section \<open>Which response a request gets\<close>

lemma show_nat_visible: "list_all visible_ascii (show_nat n)"
proof (rule list_all_iff [THEN iffD2], rule)
  fix c
  assume "c \<in> set (show_nat n)"
  then have "dec_digit c \<noteq> None" by (rule show_nat_chars)
  then show "visible_ascii c" by (auto simp: dec_digit_def visible_ascii_def Let_def split: if_splits)
qed

lemma apply_common_headers_other:
  "k \<notin> {''server'', ''date'', ''strict-transport-security'', ''x-content-type-options'',
      ''x-frame-options'', ''referrer-policy''} \<Longrightarrow>
    apply_common_headers lib now cfg h k = h k"
  by (simp add: apply_common_headers_def Let_def)

lemma common_security_headers:
  "apply_common_headers lib now cfg h ''strict-transport-security''
     = Some ''max-age=63072000; includeSubDomains; preload''"
  "apply_common_headers lib now cfg h ''x-content-type-options'' = Some ''nosniff''"
  "apply_common_headers lib now cfg h ''x-frame-options'' = Some ''SAMEORIGIN''"
  "apply_common_headers lib now cfg h ''referrer-policy'' = Some ''strict-origin-when-cross-origin''"
  by (simp_all add: apply_common_headers_def Let_def)

lemmas response_defs =
  file_response_def not_found_response_def not_modified_response_def options_response_def
  method_not_allowed_response_def empty_body_def full_body_def

text \<open>The response of \<open>file_response\<close>, with the crate's reading of a header value.\<close>

lemma file_response_cases:
  assumes "http_lib_ok lib"
  shows "file_response lib now req entry cfg =
    (if \<exists>inm. req_if_none_match req = Some inm \<and> inm = etag entry \<and> list_all visible_ascii inm
     then not_modified_response lib now entry cfg
     else file_response lib now (req\<lparr>req_if_none_match := None\<rparr>) entry cfg)"
  using assms
  by (auto simp: file_response_def http_lib_ok_def split: option.splits)

text \<open>A declared length is the length of the body of the response to a request other than HEAD, and
  the length the body would have for HEAD.\<close>

definition body_length :: "http_request \<Rightarrow> static_site \<Rightarrow> http_lib \<Rightarrow> response \<Rightarrow> nat" where
  "body_length req site lib resp =
     (if req_method req = ''HEAD''
      then length (case resolve site (percent_decode_lossy lib (req_path req)) of
                     Some e \<Rightarrow> fe_bytes e | None \<Rightarrow> fe_bytes (not_found site))
      else length (resp_body resp))"

lemma content_length_header:
  assumes "http_lib_ok lib" and "resp_headers resp ''content-length'' = Some (show_nat n)" and "n < 2 ^ 64"
  shows "content_length_of lib resp = Some n"
  using assms
  by (simp add: content_length_of_def http_lib_ok_def show_nat_visible parse_uint_show_nat)

lemma show_nat_0: "show_nat 0 = ''0''"
  by (simp add: std_simps)

lemma respond_content_length:
  assumes lib: "http_lib_ok lib"
    and small: "\<forall>e \<in> insert (not_found site) (ran (site_files site)). length (fe_bytes e) < 2 ^ 64"
  shows "content_length_of lib (respond lib now req site cfg) =
    (if status (respond lib now req site cfg) = 304 then None
     else Some (body_length req site lib (respond lib now req site cfg)))"
proof -
  have found: "length (fe_bytes e) < 2 ^ 64" if "resolve site p = Some e" for p e
    using small that by (auto simp: resolve_key ran_def)
  have nf: "length (fe_bytes (not_found site)) < 2 ^ 64" using small by simp
  have na: "length NOT_ALLOWED_HTML < 2 ^ 64" by (simp add: NOT_ALLOWED_HTML_def)
  note hdr = content_length_header [OF lib]
  consider (opt) "req_method req = ''OPTIONS''"
    | (na) "req_method req \<noteq> ''OPTIONS''" "req_method req \<noteq> ''GET''" "req_method req \<noteq> ''HEAD''"
    | (get) "req_method req = ''GET'' \<or> req_method req = ''HEAD''" by blast
  then show ?thesis
  proof cases
    case opt
    have "content_length_of lib (options_response lib now cfg) = Some 0"
      by (rule hdr) (simp_all add: options_response_def apply_common_headers_other show_nat_0)
    then show ?thesis using opt by (simp add: respond_def body_length_def options_response_def empty_body_def)
  next
    case na
    have "content_length_of lib (method_not_allowed_response lib now cfg) = Some (length NOT_ALLOWED_HTML)"
      using \<open>length NOT_ALLOWED_HTML < 2 ^ 64\<close>
      by (intro hdr) (simp_all add: method_not_allowed_response_def apply_common_headers_other)
    then show ?thesis using na
      by (simp add: respond_def body_length_def method_not_allowed_response_def full_body_def)
  next
    case get
    show ?thesis
    proof (cases "resolve site (percent_decode_lossy lib (req_path req))")
      case None
      have "content_length_of lib (not_found_response lib now (req_method req) site cfg)
          = Some (length (fe_bytes (not_found site)))"
        using nf by (intro hdr) (simp_all add: not_found_response_def apply_common_headers_other Let_def)
      then show ?thesis using get None
        by (auto simp: respond_def body_length_def not_found_response_def full_body_def Let_def)
    next
      case (Some e)
      have nm: "content_length_of lib (not_modified_response lib now e cfg) = None"
        by (simp add: content_length_of_def not_modified_response_def apply_common_headers_other)
      have ok: "content_length_of lib (file_response lib now req e cfg) = Some (length (fe_bytes e))"
        if "status (file_response lib now req e cfg) \<noteq> 304"
        using found [OF Some] that
        by (intro hdr)
          (auto simp: file_response_def not_modified_response_def apply_common_headers_other Let_def)
      show ?thesis
      proof (cases "status (file_response lib now req e cfg) = 304")
        case True
        then have "file_response lib now req e cfg = not_modified_response lib now e cfg"
          by (auto simp: file_response_def Let_def split: if_splits)
        then show ?thesis using get Some nm True by (auto simp: respond_def)
      next
        case False
        then show ?thesis using get Some ok
          by (auto simp: respond_def body_length_def file_response_def not_modified_response_def
              full_body_def Let_def split: if_splits)
      qed
    qed
  qed
qed

lemma respond_status:
  "status (respond lib now req site cfg) \<in> {200, 204, 304, 404, 405}"
  by (auto simp: respond_def response_defs Let_def split: option.splits)


text \<open>What the responses of a connection carry: file contents, the not-found page, or no contents of
  the site, and the headers that every response has.\<close>

lemma handle_all_responses:
  "resp \<in> set (fst (handle_all lib site cfg reqs st)) \<Longrightarrow>
    \<exists>(now, req) \<in> set reqs. resp = respond lib now req site cfg"
proof (induction lib site cfg reqs st rule: handle_all.induct)
  case (2 lib site cfg now req reqs st)
  obtain resp1 st1 where one: "handle_http lib now req site cfg st = (resp1, st1)" by fastforce
  then have "resp1 = respond lib now req site cfg" by (simp add: handle_http_def Let_def)
  then show ?case using "2.IH" [OF one [symmetric] refl] "2.prems" one
    by (auto simp: case_prod_unfold Let_def)
qed simp

lemma serve_responses:
  "fst (serve lib handshake sc site cfg reqs st) = Some (protocol, resps) \<Longrightarrow> resp \<in> set resps \<Longrightarrow>
    \<exists>now req. resp = respond lib now req site cfg"
  using handle_all_responses by (fastforce simp: serve_def case_prod_unfold Let_def split: handshake_outcome.splits)

lemma respond_contents:
  "status (respond lib now req site cfg) = 200 \<Longrightarrow>
    resp_body (respond lib now req site cfg) = [] \<or>
    (\<exists>path e. resolve site path = Some e \<and> resp_body (respond lib now req site cfg) = fe_bytes e)"
  "status (respond lib now req site cfg) = 404 \<Longrightarrow>
    resp_body (respond lib now req site cfg) \<in> {[], fe_bytes (not_found site)}"
  "status (respond lib now req site cfg) \<in> {204, 304} \<Longrightarrow> resp_body (respond lib now req site cfg) = []"
  by (auto simp: respond_def response_defs Let_def split: option.splits if_splits)

lemma respond_headers:
  "resp_headers (respond lib now req site cfg) ''strict-transport-security''
     = Some ''max-age=63072000; includeSubDomains; preload''"
  "resp_headers (respond lib now req site cfg) ''x-content-type-options'' = Some ''nosniff''"
  "resp_headers (respond lib now req site cfg) ''x-frame-options'' = Some ''SAMEORIGIN''"
  "resp_headers (respond lib now req site cfg) ''referrer-policy'' = Some ''strict-origin-when-cross-origin''"
  by (auto simp: respond_def response_defs Let_def common_security_headers split: option.splits)

lemma respond_server:
  "header_value_from_str lib (server_header cfg) \<Longrightarrow>
    resp_headers (respond lib now req site cfg) ''server'' = Some (server_header cfg)"
  by (auto simp: respond_def response_defs Let_def apply_common_headers_def split: option.splits)


section \<open>Accounting\<close>

text \<open>
  How often a method was asked for and a status was given, and the lengths declared: by these
  numbers, and no others, the requests of a connection move the counters.
\<close>

definition requests_with :: "(string \<Rightarrow> bool) \<Rightarrow> (int \<times> http_request) list \<Rightarrow> u64" where
  "requests_with P reqs = of_nat (length (filter (\<lambda>(now, req). P (req_method req)) reqs))"

definition responses_with :: "nat \<Rightarrow> response list \<Rightarrow> u64" where
  "responses_with code resps = of_nat (length (filter (\<lambda>resp. status resp = code) resps))"

definition declared_bytes :: "http_lib \<Rightarrow> response list \<Rightarrow> u64" where
  "declared_bytes lib resps =
     of_nat (sum_list (map (\<lambda>resp. case content_length_of lib resp of None \<Rightarrow> 0 | Some len \<Rightarrow> len) resps))"

definition http_counted :: "http_lib \<Rightarrow> (int \<times> http_request) list \<Rightarrow> response list \<Rightarrow> stats \<Rightarrow> stats" where
  "http_counted lib reqs resps st =
     st\<lparr>http_method_get_total := http_method_get_total st + requests_with (\<lambda>m. m = ''GET'') reqs,
        http_method_head_total := http_method_head_total st + requests_with (\<lambda>m. m = ''HEAD'') reqs,
        http_method_options_total := http_method_options_total st + requests_with (\<lambda>m. m = ''OPTIONS'') reqs,
        http_method_other_total := http_method_other_total st
          + requests_with (\<lambda>m. m \<notin> {''GET'', ''HEAD'', ''OPTIONS''}) reqs,
        http_status_200_total := http_status_200_total st + responses_with 200 resps,
        http_status_204_total := http_status_204_total st + responses_with 204 resps,
        http_status_304_total := http_status_304_total st + responses_with 304 resps,
        http_status_404_total := http_status_404_total st + responses_with 404 resps,
        http_status_405_total := http_status_405_total st + responses_with 405 resps,
        http_bytes_sent_total := http_bytes_sent_total st + declared_bytes lib resps\<rparr>"

lemma http_counted_Nil: "http_counted lib [] [] st = st"
  by (simp add: http_counted_def requests_with_def responses_with_def declared_bytes_def)

lemma http_counted_Cons:
  "http_counted lib ((now, req) # reqs) (resp # resps) st =
    http_counted lib reqs resps (http_counted lib [(now, req)] [resp] st)"
  by (simp add: http_counted_def requests_with_def responses_with_def declared_bytes_def
      algebra_simps)

lemma counted_bytes_unchanged [simp]:
  "http_bytes_sent_total (count_method m st) = http_bytes_sent_total st"
  "http_bytes_sent_total (count_status c st) = http_bytes_sent_total st"
  by (simp_all add: count_method_def count_status_def)

lemma count_method_once:
  "count_method m st =
     st\<lparr>http_method_get_total := http_method_get_total st + (if m = ''GET'' then 1 else 0),
        http_method_head_total := http_method_head_total st + (if m = ''HEAD'' then 1 else 0),
        http_method_options_total := http_method_options_total st + (if m = ''OPTIONS'' then 1 else 0),
        http_method_other_total := http_method_other_total st
          + (if m \<notin> {''GET'', ''HEAD'', ''OPTIONS''} then 1 else 0)\<rparr>"
  by (simp add: count_method_def)

lemma count_status_once:
  assumes "c \<in> {200, 204, 304, 404, 405}"
  shows "count_status c st =
     st\<lparr>http_status_200_total := http_status_200_total st + (if c = 200 then 1 else 0),
        http_status_204_total := http_status_204_total st + (if c = 204 then 1 else 0),
        http_status_304_total := http_status_304_total st + (if c = 304 then 1 else 0),
        http_status_404_total := http_status_404_total st + (if c = 404 then 1 else 0),
        http_status_405_total := http_status_405_total st + (if c = 405 then 1 else 0)\<rparr>"
  using assms by (elim insertE emptyE) (simp_all add: count_status_def)

lemma counted_one:
  "requests_with P [(now, req)] = (if P (req_method req) then 1 else 0)"
  "responses_with code [resp] = (if status resp = code then 1 else 0)"
  "declared_bytes lib [resp] = (case content_length_of lib resp of None \<Rightarrow> 0 | Some len \<Rightarrow> of_nat len)"
  by (simp_all add: requests_with_def responses_with_def declared_bytes_def split: option.split)

lemma record_bytes_once:
  "record_response_metrics lib st resp =
    (let st' = count_status (status resp) st
     in st'\<lparr>http_bytes_sent_total := http_bytes_sent_total st' +
          (case content_length_of lib resp of None \<Rightarrow> 0 | Some len \<Rightarrow> of_nat len)\<rparr>)"
  by (simp add: record_response_metrics_def Let_def split: option.split)

lemma handle_http_counted:
  "handle_http lib now req site cfg st =
    (respond lib now req site cfg, http_counted lib [(now, req)] [respond lib now req site cfg] st)"
  by (simp add: handle_http_def Let_def record_bytes_once count_method_once
      count_status_once [OF respond_status] http_counted_def counted_one split del: if_split)

lemma handle_all_counted:
  "handle_all lib site cfg reqs st =
    (let resps = map (\<lambda>(now, req). respond lib now req site cfg) reqs
     in (resps, http_counted lib reqs resps st))"
proof (induction reqs arbitrary: st)
  case Nil
  show ?case by (simp add: http_counted_Nil)
next
  case (Cons r reqs)
  obtain now req where "r = (now, req)" by fastforce
  then show ?case
    by (simp add: handle_http_counted Cons.IH Let_def http_counted_Cons [of lib now req reqs])
qed


section \<open>Properties\<close>

text \<open>A library record that keeps the promise, for evaluating the definitions.\<close>

definition sample_lib :: http_lib where
  "sample_lib =
     \<lparr>percent_decode_lossy = (\<lambda>s. s), fmt_http_date = (\<lambda>_. ''date''), http_date_ok = (\<lambda>t. 0 \<le> t),
      header_value_from_str = (\<lambda>_. True),
      header_to_str = (\<lambda>v. if list_all visible_ascii v then Some v else None)\<rparr>"

lemma sample_lib_date [simp]: "http_date sample_lib = sample_date"
  by (rule ext) (simp add: http_date_def sample_lib_def sample_date_def)

lemma sample_lib_ok: "http_lib_ok sample_lib"
  by (simp add: http_lib_ok_def sample_lib_def)

definition sample_static_site :: static_site where
  "sample_static_site =
     \<lparr>site_files = Map.empty(''/index.html'' := file_entry_of sample_date ''index.html'' ''hi'' None),
      site_not_found = the (default_not_found sample_date 0)\<rparr>"

definition sample_request :: http_request where
  "sample_request = \<lparr>req_method = ''GET'', req_path = ''/'', req_if_none_match = None\<rparr>"

text \<open>
  C36: Every response but a 304 declares a length: the length of its body, or for HEAD the length
  of the body GET would have; a 304 declares none, and \<open>http_bytes_sent_total\<close> grows by exactly
  the declared length, which survives printing and parsing.
\<close>

theorem content_length_exact:
  assumes "http_lib_ok lib"
    and "\<forall>e \<in> insert (not_found site) (ran (site_files site)). length (fe_bytes e) < 2 ^ 64"
  shows "let (resp, st') = handle_http lib now req site cfg st;
             declared = (if status resp = 304 then None else Some (body_length req site lib resp))
    in content_length_of lib resp = declared \<and>
       http_bytes_sent_total st' = http_bytes_sent_total st
         + (case declared of None \<Rightarrow> 0 | Some n \<Rightarrow> of_nat n)"
  using respond_content_length [OF assms, of now req cfg]
  by (simp add: handle_http_def record_response_metrics_def Let_def)

lemma content_length_exact_witness:
  "content_length_of sample_lib (fst (handle_http sample_lib 0 sample_request sample_static_site sample_config
     (new_stats 0))) = Some 2"
proof -
  have "\<forall>e \<in> insert (not_found sample_static_site) (ran (site_files sample_static_site)). length (fe_bytes e) < 2 ^ 64"
    by (simp add: sample_static_site_def not_found_def default_not_found_def DEFAULT_404_HTML_def
        file_entry_of_def sample_date_def Let_def)
  note r = content_length_exact [OF sample_lib_ok this, of 0 sample_request sample_config "new_stats 0"]
  have "resolve sample_static_site ''/'' = file_entry_of sample_date ''index.html'' ''hi'' None"
    by (simp add: resolve_key lookup_key_def sample_static_site_def)
  then have "status (fst (handle_http sample_lib 0 sample_request sample_static_site sample_config (new_stats 0))) = 200"
    "body_length sample_request sample_static_site sample_lib
      (fst (handle_http sample_lib 0 sample_request sample_static_site sample_config (new_stats 0))) = 2"
    by (simp_all add: handle_http_def respond_def sample_request_def sample_lib_def file_response_def
        body_length_def full_body_def file_entry_of_def sample_date_def Let_def)
  then show ?thesis using r by (simp add: case_prod_unfold Let_def)
qed

text \<open>
  C37: Over any sequence of requests, each is answered once and in order, and each counter moves by
  its own number: a method counter by the requests with that method (any method but GET, HEAD and
  OPTIONS is counted as other), a status counter by the responses with that status, and
  \<open>http_bytes_sent_total\<close> by the sum of the lengths declared. No other counter moves, the one for
  other statuses included.
\<close>

theorem requests_accounted:
  "let (resps, st') = handle_all lib site cfg reqs st in
    resps = map (\<lambda>(now, req). respond lib now req site cfg) reqs \<and>
    st' = st
      \<lparr>http_method_get_total := http_method_get_total st + requests_with (\<lambda>m. m = ''GET'') reqs,
       http_method_head_total := http_method_head_total st + requests_with (\<lambda>m. m = ''HEAD'') reqs,
       http_method_options_total :=
         http_method_options_total st + requests_with (\<lambda>m. m = ''OPTIONS'') reqs,
       http_method_other_total :=
         http_method_other_total st + requests_with (\<lambda>m. m \<notin> {''GET'', ''HEAD'', ''OPTIONS''}) reqs,
       http_status_200_total := http_status_200_total st + responses_with 200 resps,
       http_status_204_total := http_status_204_total st + responses_with 204 resps,
       http_status_304_total := http_status_304_total st + responses_with 304 resps,
       http_status_404_total := http_status_404_total st + responses_with 404 resps,
       http_status_405_total := http_status_405_total st + responses_with 405 resps,
       http_bytes_sent_total := http_bytes_sent_total st + declared_bytes lib resps\<rparr>"
  by (simp add: handle_all_counted Let_def http_counted_def)

text \<open>
  The status of a response: 204 for OPTIONS, 405 for any other method than GET and HEAD, 404
  when the decoded path is not in the site, 304 when \<open>If-None-Match\<close> is the entity tag of the file
  (and is a readable header value), and 200 with the file otherwise.
\<close>

lemma respond_classified:
  assumes "http_lib_ok lib"
  shows "let resp = respond lib now req site cfg;
             found = resolve site (percent_decode_lossy lib (req_path req))
    in status resp =
        (if req_method req = ''OPTIONS'' then 204
         else if req_method req \<notin> {''GET'', ''HEAD''} then 405
         else case found of
                None \<Rightarrow> 404
              | Some e \<Rightarrow> if req_if_none_match req = Some (etag e) \<and> list_all visible_ascii (etag e) then 304 else 200) \<and>
       (status resp = 200 \<longrightarrow> (\<exists>e. found = Some e \<and>
          resp_body resp = (if req_method req = ''HEAD'' then [] else fe_bytes e) \<and>
          resp_headers resp ''etag'' = Some (etag e)))"
  using assms
  by (auto simp: respond_def response_defs Let_def http_lib_ok_def apply_common_headers_other
      split: option.splits)

lemma respond_classified_witness:
  "status (respond sample_lib 0 (sample_request\<lparr>req_path := ''/none''\<rparr>) sample_static_site sample_config) = 404"
  using respond_classified [OF sample_lib_ok, of 0 "sample_request\<lparr>req_path := ''/none''\<rparr>" sample_static_site sample_config]
  by (simp add: Let_def sample_request_def sample_lib_def sample_static_site_def resolve_key lookup_key_def)

text \<open>
  HEAD is answered like GET with the same status and headers and an empty body, and every
  response carries the four security headers.
\<close>

lemma head_and_security_headers:
  "let get = respond lib now (req\<lparr>req_method := ''GET''\<rparr>) site cfg;
       head = respond lib now (req\<lparr>req_method := ''HEAD''\<rparr>) site cfg;
       h = resp_headers (respond lib now req site cfg)
   in status head = status get \<and> resp_headers head = resp_headers get \<and> resp_body head = [] \<and>
      h ''strict-transport-security'' = Some ''max-age=63072000; includeSubDomains; preload'' \<and>
      h ''x-content-type-options'' = Some ''nosniff'' \<and>
      h ''x-frame-options'' = Some ''SAMEORIGIN'' \<and>
      h ''referrer-policy'' = Some ''strict-origin-when-cross-origin''"
  by (auto simp: respond_def response_defs Let_def common_security_headers split: option.splits)

definition handshakes_counted :: "stats \<Rightarrow> u64" where
  "handshakes_counted st = fallback_tls_handshake_success_total st + fallback_tls_handshake_failure_total st"

definition alpns_counted :: "stats \<Rightarrow> u64" where
  "alpns_counted st = fallback_alpn_h2_total st + fallback_alpn_http1_total st + fallback_alpn_none_total st"

definition tls_counted :: "stats \<Rightarrow> u64 \<times> u64 \<times> u64" where
  "tls_counted st = (handshakes_counted st, alpns_counted st, fallback_tls_handshake_success_total st)"

lemma handle_all_tls: "tls_counted (snd (handle_all lib site cfg reqs st)) = tls_counted st"
  by (simp add: handle_all_counted Let_def http_counted_def tls_counted_def handshakes_counted_def
      alpns_counted_def)

text \<open>
  C38: A connection to the fallback site counts exactly one handshake outcome; only a completed
  handshake is served, over HTTP/2 exactly when \<open>h2\<close> was negotiated, and it counts exactly one
  protocol. The handshake is given the configured timeout.
\<close>

theorem serve_accounted:
  "let out = handshake (dur_from_secs (unat (handshake_timeout_secs cfg))) sc;
       (res, st') = serve lib handshake sc site cfg reqs st
   in handshakes_counted st' = handshakes_counted st + 1 \<and>
      (case out of
         Handshake_ok alpn \<Rightarrow>
           fallback_tls_handshake_success_total st' = fallback_tls_handshake_success_total st + 1 \<and>
           alpns_counted st' = alpns_counted st + 1 \<and>
           (\<exists>resps. res = Some (if alpn = Some ''h2'' then Http2 else Http1_with_upgrades, resps) \<and>
              length resps = length reqs)
       | _ \<Rightarrow>
           fallback_tls_handshake_success_total st' = fallback_tls_handshake_success_total st \<and>
           alpns_counted st' = alpns_counted st \<and> res = None)"
proof (cases "handshake (dur_from_secs (unat (handshake_timeout_secs cfg))) sc")
  case (Handshake_ok alpn)
  let ?st1 = "count_alpn alpn
    (st\<lparr>fallback_tls_handshake_success_total := fallback_tls_handshake_success_total st + 1\<rparr>)"
  obtain resps st' where r: "handle_all lib site cfg reqs ?st1 = (resps, st')" by fastforce
  have "tls_counted st' = tls_counted ?st1" using handle_all_tls [of lib site cfg reqs ?st1] r by simp
  moreover have "length resps = length reqs" using r by (auto simp: handle_all_counted Let_def)
  ultimately show ?thesis
    using Handshake_ok r
    by (auto simp: serve_def Let_def tls_counted_def handshakes_counted_def alpns_counted_def count_alpn_def
        split: if_splits)
qed (simp_all add: serve_def handshakes_counted_def alpns_counted_def)

end
