(* ===== verification/Proxy.thy ===== *)
theory Proxy
  imports Stats Tls
begin

text \<open>
  \<open>src/route/proxy.rs\<close>: connecting to the upstream with bounded exponential backoff, and relaying.
  The generic driver \<open>retry_with_backoff\<close> threads a state through the attempts and returns, beside
  its result, the sleeps it asks the timer for; what a connect within its timeout comes to is a
  parameter, by attempt number, and so are the TLS handshake and tokio's \<open>copy_bidirectional\<close>.

  The lemmas reduce a run to the list of attempts that are made (\<open>attempted\<close>): up to the first
  success, and all of them when none succeeds.
\<close>

section \<open>The retry policy\<close>

record connect_retry_policy =
  attempt_timeout :: duration
  max_attempts :: u32
  base_delay :: duration
  max_delay :: duration

definition DEFAULT :: connect_retry_policy where
  "DEFAULT =
     \<lparr>attempt_timeout = dur_from_secs 3, max_attempts = 4,
      base_delay = dur_from_millis 200, max_delay = dur_from_secs 2\<rparr>"

text \<open>\<open>1u32.checked_shl(n)\<close>: none for a shift of 32 or more.\<close>

definition checked_shl_one :: "u32 \<Rightarrow> u32 option" where
  "checked_shl_one n = (if unat n < 32 then Some (push_bit (unat n) 1) else None)"

definition get_delay :: "connect_retry_policy \<Rightarrow> u32 \<Rightarrow> duration" where
  "get_delay p attempt =
     (if attempt \<le> 1 then 0
      else
        let exponent = attempt - 2;
            multiplier = (case checked_shl_one exponent of Some m \<Rightarrow> m | None \<Rightarrow> - 1)
        in min (case dur_checked_mul (base_delay p) (unat multiplier) of
                  Some d \<Rightarrow> d | None \<Rightarrow> max_delay p)
               (max_delay p))"


section \<open>The driver\<close>

text \<open>\<open>1..=policy.max_attempts.max(1)\<close>.\<close>

definition attempt_numbers :: "connect_retry_policy \<Rightarrow> u32 list" where
  "attempt_numbers p = map of_nat [1..<Suc (unat (max (max_attempts p) 1))]"

text \<open>The loop; \<open>None\<close> is the panic of \<open>expect\<close> on the error path.\<close>

fun retry_loop ::
  "connect_retry_policy \<Rightarrow> (u32 \<Rightarrow> 's \<Rightarrow> ('e + 'a) \<times> 's) \<Rightarrow> u32 list \<Rightarrow> 'e option \<Rightarrow> 's
    \<Rightarrow> ('e + 'a) option \<times> 's \<times> duration list" where
  "retry_loop p func [] last_err s = (map_option Inl last_err, s, [])"
| "retry_loop p func (n # ns) last_err s =
     (let delay = get_delay p n;
          slept = (if delay = 0 then [] else [delay]);
          (r, s1) = func n s
      in (case r of
            Inr v \<Rightarrow> (Some (Inr v), s1, slept)
          | Inl e \<Rightarrow>
              let (res, s2, sleeps) = retry_loop p func ns (Some e) s1
              in (res, s2, slept @ sleeps)))"

definition retry_with_backoff ::
  "connect_retry_policy \<Rightarrow> (u32 \<Rightarrow> 's \<Rightarrow> ('e + 'a) \<times> 's) \<Rightarrow> 's
    \<Rightarrow> ('e + 'a) option \<times> 's \<times> duration list" where
  "retry_with_backoff p func s = retry_loop p func (attempt_numbers p) None s"


section \<open>Connecting and relaying\<close>

text \<open>What \<open>timeout(policy.attempt_timeout, TcpStream::connect(endpoint))\<close> returns.\<close>

datatype ('e, 'conn) connect_outcome = Connected 'conn | Connect_error 'e | Connect_elapsed

datatype 'e io_error = Io_error 'e | Timed_out string duration

type_synonym ('e, 'conn) connector = "duration \<Rightarrow> string \<Rightarrow> u32 \<Rightarrow> ('e, 'conn) connect_outcome"

definition connect_attempt ::
  "('e, 'conn) connector \<Rightarrow> string \<Rightarrow> connect_retry_policy \<Rightarrow> u32 \<Rightarrow> stats
    \<Rightarrow> ('e io_error + 'conn) \<times> stats" where
  "connect_attempt connect endpoint p attempt st =
     (let outcome =
            (case connect (attempt_timeout p) endpoint attempt of
               Connected c \<Rightarrow> Inr c
             | Connect_error e \<Rightarrow> Inl (Io_error e)
             | Connect_elapsed \<Rightarrow> Inl (Timed_out endpoint (attempt_timeout p)))
      in (case outcome of
            Inr c \<Rightarrow> (Inr c, st)
          | Inl err \<Rightarrow>
              (Inl err,
               if attempt < max (max_attempts p) 1
               then st\<lparr>proxy_service_connect_retries_total := proxy_service_connect_retries_total st + 1\<rparr>
               else st)))"

definition connect_with_backoff ::
  "('e, 'conn) connector \<Rightarrow> string \<Rightarrow> connect_retry_policy \<Rightarrow> stats
    \<Rightarrow> ('e io_error + 'conn) option \<times> stats \<times> duration list" where
  "connect_with_backoff connect endpoint p st =
     retry_with_backoff p (connect_attempt connect endpoint p) st"

text \<open>The bytes relayed each way, or an I/O error of one side.\<close>

type_synonym ('e, 'conn) relay = "'conn \<Rightarrow> 'e + (u64 \<times> u64)"

datatype 'e proxy_error = Failed_to_connect string u32 "'e io_error" | Retry_panic

definition relay_to_service ::
  "('e, 'conn) connector \<Rightarrow> ('e, 'conn) relay \<Rightarrow> string \<Rightarrow> stats
    \<Rightarrow> ('e proxy_error + unit) \<times> stats \<times> duration list" where
  "relay_to_service connect copy endpoint st =
     (let (res, st1, sleeps) = connect_with_backoff connect endpoint DEFAULT st in
      case res of
        None \<Rightarrow> (Inl Retry_panic, st1, sleeps)
      | Some (Inl e) \<Rightarrow>
          (Inl (Failed_to_connect endpoint (max_attempts DEFAULT) e),
           st1\<lparr>proxy_service_connect_failures_total := proxy_service_connect_failures_total st1 + 1\<rparr>,
           sleeps)
      | Some (Inr conn) \<Rightarrow>
          (case copy conn of
             Inr (from_client, from_upstream) \<Rightarrow>
               (Inr (),
                st1\<lparr>proxy_bytes_client_to_service_total :=
                      proxy_bytes_client_to_service_total st1 + from_client,
                    proxy_bytes_service_to_client_total :=
                      proxy_bytes_service_to_client_total st1 + from_upstream\<rparr>,
                sleeps)
           | Inl _ \<Rightarrow> (Inr (), st1, sleeps)))"

definition proxy ::
  "('e, 'conn) connector \<Rightarrow> ('e, 'conn) relay \<Rightarrow> string \<Rightarrow> stats
    \<Rightarrow> ('e proxy_error + unit) \<times> stats \<times> duration list" where
  "proxy connect copy endpoint st = relay_to_service connect copy endpoint st"

definition proxy_with_tls_termination ::
  "handshake \<Rightarrow> ('e, 'conn) connector \<Rightarrow> ('e, 'conn) relay \<Rightarrow> server_config \<Rightarrow> string
    \<Rightarrow> service_config \<Rightarrow> stats \<Rightarrow> ('e proxy_error + unit) \<times> stats \<times> duration list" where
  "proxy_with_tls_termination handshake connect copy sc endpoint cfg st =
     (let handshake_timeout = dur_from_secs (unat (handshake_timeout_secs cfg)) in
      case handshake handshake_timeout sc of
        Handshake_ok _ \<Rightarrow>
          relay_to_service connect copy endpoint
            (st\<lparr>proxy_tls_handshake_success_total := proxy_tls_handshake_success_total st + 1\<rparr>)
      | Handshake_error \<Rightarrow>
          (Inr (), st\<lparr>proxy_tls_handshake_failure_total := proxy_tls_handshake_failure_total st + 1\<rparr>, [])
      | Handshake_timeout \<Rightarrow>
          (Inr (), st\<lparr>proxy_tls_handshake_failure_total := proxy_tls_handshake_failure_total st + 1\<rparr>, []))"


section \<open>Delays\<close>

text \<open>The factor of the base delay before attempt number \<open>n\<close>.\<close>

definition backoff_factor :: "nat \<Rightarrow> nat" where
  "backoff_factor n = (if n \<le> 1 then 0 else if n - 2 < 32 then 2 ^ (n - 2) else 2 ^ 32 - 1)"

lemma unat_two_power: "n < 32 \<Longrightarrow> unat (2 ^ n :: u32) = 2 ^ n"
proof -
  assume n: "n < 32"
  have "unat (of_nat (2 ^ n) :: u32) = 2 ^ n"
    by (simp only: unsigned_of_nat) (simp add: take_bit_nat_eq_self n)
  then show ?thesis by simp
qed

lemma unat_u32_max: "unat (- 1 :: u32) = 2 ^ 32 - 1"
  by (simp add: unsigned_minus_1_eq_mask mask_eq_exp_minus_1)

lemma unat_minus_two: "\<not> n \<le> 1 \<Longrightarrow> unat (n - 2 :: u32) = unat n - 2"
  by (subst unat_sub) (simp_all add: word_le_nat_alt)

lemma get_delay_factor:
  assumes "max_delay p \<le> DURATION_MAX"
  shows "get_delay p n = min (base_delay p * backoff_factor (unat n)) (max_delay p)"
proof (cases "n \<le> 1")
  case True
  then show ?thesis by (simp add: get_delay_def backoff_factor_def word_le_nat_alt)
next
  case False
  define m where "m = (case checked_shl_one (n - 2) of Some m \<Rightarrow> m | None \<Rightarrow> - 1)"
  have "unat m = backoff_factor (unat n)"
    using False
    by (auto simp: m_def checked_shl_one_def unat_minus_two unat_two_power unat_u32_max
        backoff_factor_def word_le_nat_alt)
  then show ?thesis
    using False assms by (simp add: get_delay_def dur_checked_mul_def m_def Let_def)
qed

lemma backoff_factor_mono: "m \<le> n \<Longrightarrow> backoff_factor m \<le> backoff_factor n"
proof -
  assume mn: "m \<le> n"
  have "(2::nat) ^ k \<le> 2 ^ 32 - 1" if "k < 32" for k
    using power_increasing [of k 31 "2::nat"] that by simp
  moreover have "(2::nat) ^ (m - 2) \<le> 2 ^ (n - 2)"
    using mn by (intro power_increasing) simp_all
  ultimately show ?thesis using mn by (auto simp: backoff_factor_def)
qed

lemma get_delay_le_max: "get_delay p n \<le> max_delay p"
  by (simp add: get_delay_def Let_def)


section \<open>The attempts that are made\<close>

fun attempted :: "(u32 \<Rightarrow> 'e + 'a) \<Rightarrow> u32 list \<Rightarrow> u32 list" where
  "attempted r [] = []"
| "attempted r (n # ns) = n # (if is_ok (r n) then [] else attempted r ns)"

definition sleeps_before :: "connect_retry_policy \<Rightarrow> u32 list \<Rightarrow> duration list" where
  "sleeps_before p ns = filter (\<lambda>d. d \<noteq> 0) (map (get_delay p) ns)"

lemma attempted_prefix: "prefix (attempted r ns) ns"
  by (induction ns) simp_all

lemma attempted_nonempty [simp]: "attempted r ns = [] \<longleftrightarrow> ns = []"
  by (cases ns) simp_all

lemma attempted_failed: "n \<in> set (butlast (attempted r ns)) \<Longrightarrow> \<not> is_ok (r n)"
  by (induction ns) (auto split: if_splits)

lemma attempted_last: "ns \<noteq> [] \<Longrightarrow> is_ok (r (last (attempted r ns))) \<or> attempted r ns = ns"
  by (induction ns) (auto split: if_splits)

text \<open>An attempt whose answer depends on its number alone.\<close>

lemma retry_loop_run:
  assumes "\<And>n s. func n s = (r n, g n s)"
  shows "retry_loop p func ns last_err s =
    (if ns = [] then map_option Inl last_err else Some (r (last (attempted r ns))),
     fold g (attempted r ns) s, sleeps_before p (attempted r ns))"
proof (induction ns arbitrary: last_err s)
  case Nil
  then show ?case by (simp add: sleeps_before_def)
next
  case (Cons n ns)
  show ?case
  proof (cases "r n")
    case (Inl e)
    then show ?thesis using Cons assms by (simp add: sleeps_before_def)
  next
    case (Inr v)
    then show ?thesis using assms by (simp add: sleeps_before_def)
  qed
qed

lemma attempt_numbers_nonempty [simp]: "attempt_numbers p \<noteq> []"
  by (simp add: attempt_numbers_def max_def word_le_nat_alt)

lemma length_attempt_numbers: "length (attempt_numbers p) = unat (max (max_attempts p) 1)"
  by (simp add: attempt_numbers_def)

lemma attempt_numbers_distinct: "distinct (attempt_numbers p)"
proof -
  have "inj_on (of_nat :: nat \<Rightarrow> u32) {1..<Suc (unat (max (max_attempts p) 1))}"
  proof (rule inj_onI)
    fix a b :: nat
    assume "a \<in> {1..<Suc (unat (max (max_attempts p) 1))}"
      and "b \<in> {1..<Suc (unat (max (max_attempts p) 1))}"
      and "(of_nat a :: u32) = of_nat b"
    moreover from this have "a < 2 ^ 32" "b < 2 ^ 32"
      using unsigned_less [of "max (max_attempts p) 1", where 'a = nat] by simp_all
    ultimately show "a = b" by (simp add: of_nat_inverse word_of_nat_eq_iff take_bit_nat_eq_self)
  qed
  then show ?thesis
    by (simp only: attempt_numbers_def distinct_map distinct_upt set_upt simp_thms)
qed

lemma attempt_numbers_last: "last (attempt_numbers p) = max (max_attempts p) 1"
  by (simp add: attempt_numbers_def last_map last_upt max_def word_le_nat_alt)

lemma attempt_numbers_bound: "n \<in> set (attempt_numbers p) \<Longrightarrow> n \<le> max (max_attempts p) 1"
proof -
  assume "n \<in> set (attempt_numbers p)"
  then obtain k where "n = of_nat k" "k \<le> unat (max (max_attempts p) 1)"
    by (auto simp: attempt_numbers_def)
  moreover from this have "k < 2 ^ 32"
    using unsigned_less [of "max (max_attempts p) 1", where 'a = nat] by simp
  ultimately show ?thesis by (simp add: word_le_nat_alt unsigned_of_nat take_bit_nat_eq_self)
qed


section \<open>Connecting\<close>

definition attempt_result ::
  "('e, 'conn) connector \<Rightarrow> string \<Rightarrow> connect_retry_policy \<Rightarrow> u32 \<Rightarrow> 'e io_error + 'conn" where
  "attempt_result connect endpoint p n =
     (case connect (attempt_timeout p) endpoint n of
        Connected c \<Rightarrow> Inr c
      | Connect_error e \<Rightarrow> Inl (Io_error e)
      | Connect_elapsed \<Rightarrow> Inl (Timed_out endpoint (attempt_timeout p)))"

definition counts_retry ::
  "('e, 'conn) connector \<Rightarrow> string \<Rightarrow> connect_retry_policy \<Rightarrow> u32 \<Rightarrow> bool" where
  "counts_retry connect endpoint p n \<longleftrightarrow>
     \<not> is_ok (attempt_result connect endpoint p n) \<and> n < max (max_attempts p) 1"

definition count_retries :: "u64 \<Rightarrow> stats \<Rightarrow> stats" where
  "count_retries k st =
     st\<lparr>proxy_service_connect_retries_total := proxy_service_connect_retries_total st + k\<rparr>"

lemma connect_attempt_split:
  "connect_attempt connect endpoint p n st =
    (attempt_result connect endpoint p n,
     count_retries (if counts_retry connect endpoint p n then 1 else 0) st)"
  by (simp add: connect_attempt_def attempt_result_def counts_retry_def count_retries_def Let_def
      split: connect_outcome.splits)

lemma fold_count_retries:
  "fold (\<lambda>n. count_retries (if P n then 1 else 0)) ns st =
    count_retries (of_nat (length (filter P ns))) st"
  by (induction ns arbitrary: st) (simp_all add: count_retries_def add.assoc)

definition attempts_of ::
  "('e, 'conn) connector \<Rightarrow> string \<Rightarrow> connect_retry_policy \<Rightarrow> u32 list" where
  "attempts_of connect endpoint p =
     attempted (attempt_result connect endpoint p) (attempt_numbers p)"

lemma butlast_prefix_not_last:
  assumes "prefix xs ys" and "distinct ys" and "y \<in> set (butlast xs)"
  shows "y \<noteq> last ys"
proof -
  obtain zs where ys: "ys = xs @ zs" using assms(1) by (auto simp: prefix_def)
  have xs: "xs \<noteq> []" using assms(3) by auto
  then have ys': "ys = butlast xs @ (last xs # zs)" using ys by simp
  then have "last ys \<in> set (last xs # zs)" using last_in_set [of "last xs # zs"] by simp
  then show ?thesis using assms(2,3) ys' by (metis disjoint_iff distinct_append)
qed

lemma retries_counted:
  "length (filter (counts_retry connect endpoint p) (attempts_of connect endpoint p)) =
    length (attempts_of connect endpoint p) - 1"
proof -
  let ?r = "attempt_result connect endpoint p"
  let ?ns = "attempt_numbers p"
  let ?as = "attempts_of connect endpoint p"
  have ne: "?as \<noteq> []" by (simp add: attempts_of_def)
  have "counts_retry connect endpoint p n" if n: "n \<in> set (butlast ?as)" for n
  proof -
    have "n \<in> set ?ns"
      using in_set_butlastD [OF n] set_mono_prefix [OF attempted_prefix [of ?r ?ns]]
      by (auto simp: attempts_of_def)
    then have "n \<le> max (max_attempts p) 1" by (rule attempt_numbers_bound)
    moreover have "n \<noteq> max (max_attempts p) 1"
      using butlast_prefix_not_last [OF attempted_prefix attempt_numbers_distinct]
        n [unfolded attempts_of_def] attempt_numbers_last by metis
    ultimately have "n < max (max_attempts p) 1" by (rule le_neq_trans)
    then show ?thesis
      using attempted_failed [OF n [unfolded attempts_of_def]] by (simp add: counts_retry_def)
  qed
  then have "filter (counts_retry connect endpoint p) (butlast ?as) = butlast ?as" by simp
  moreover have "\<not> counts_retry connect endpoint p (last ?as)"
    using attempted_last [of ?ns ?r] attempt_numbers_last [of p]
    by (auto simp: counts_retry_def attempts_of_def)
  ultimately have "filter (counts_retry connect endpoint p) (butlast ?as @ [last ?as]) = butlast ?as"
    by simp
  then show ?thesis using ne by simp
qed

lemma connect_with_backoff_run:
  "connect_with_backoff connect endpoint p st =
    (Some (attempt_result connect endpoint p (last (attempts_of connect endpoint p))),
     count_retries (of_nat (length (attempts_of connect endpoint p) - 1)) st,
     sleeps_before p (attempts_of connect endpoint p))"
  unfolding connect_with_backoff_def retry_with_backoff_def
  by (subst retry_loop_run [OF connect_attempt_split])
    (simp add: fold_count_retries attempts_of_def [symmetric] retries_counted)

lemma attempts_of_length:
  "1 \<le> length (attempts_of connect endpoint p)"
  "length (attempts_of connect endpoint p) \<le> unat (max (max_attempts p) 1)"
proof -
  show "1 \<le> length (attempts_of connect endpoint p)" by (simp add: attempts_of_def Suc_le_eq)
  show "length (attempts_of connect endpoint p) \<le> unat (max (max_attempts p) 1)"
    using prefix_length_le [OF attempted_prefix] length_attempt_numbers [of p]
    unfolding attempts_of_def by metis
qed





lemma default_attempt_numbers: "attempt_numbers DEFAULT = [1, 2, 3, 4]"
  by (simp add: attempt_numbers_def DEFAULT_def upt_rec max_def word_le_nat_alt)

lemma default_delays:
  "get_delay DEFAULT 1 = 0" "get_delay DEFAULT 2 = dur_from_millis 200"
  "get_delay DEFAULT 3 = dur_from_millis 400" "get_delay DEFAULT 4 = dur_from_millis 800"
  by (simp_all add: get_delay_factor DEFAULT_def std_simps backoff_factor_def)


lemma attempted_ok_iff: "ns \<noteq> [] \<Longrightarrow> is_ok (r (last (attempted r ns))) \<longleftrightarrow> (\<exists>n \<in> set ns. is_ok (r n))"
  by (induction ns) auto

lemma attempted_all: "\<forall>n \<in> set ns. \<not> is_ok (r n) \<Longrightarrow> attempted r ns = ns"
  by (induction ns) simp_all

lemma is_ok_not_Inl: "is_ok r \<longleftrightarrow> (\<forall>e. r \<noteq> Inl e)"
  by (cases r) simp_all


section \<open>Properties\<close>

text \<open>
  C19: A connect makes attempts 1, 2, ... up to the first that succeeds, and all
  \<open>max(max_attempts, 1)\<close> of them when none does; it returns what the last one made came to, never
  panics, counts one retry for every attempt but the last, and sleeps the delays of the attempts
  it makes.
\<close>

theorem connect_with_backoff_exact:
  "let made = attempts_of connect endpoint p; r = attempt_result connect endpoint p in
    connect_with_backoff connect endpoint p st =
      (Some (r (last made)),
       st\<lparr>proxy_service_connect_retries_total :=
            proxy_service_connect_retries_total st + of_nat (length made - 1)\<rparr>,
       sleeps_before p made) \<and>
    prefix made (attempt_numbers p) \<and> made \<noteq> [] \<and> length made \<le> unat (max (max_attempts p) 1) \<and>
    list_all (\<lambda>n. \<not> is_ok (r n)) (butlast made) \<and>
    (is_ok (r (last made)) \<or> made = attempt_numbers p)"
  unfolding Let_def
proof (intro conjI)
  let ?r = "attempt_result connect endpoint p"
  let ?made = "attempts_of connect endpoint p"
  show "connect_with_backoff connect endpoint p st =
      (Some (?r (last ?made)),
       st\<lparr>proxy_service_connect_retries_total :=
            proxy_service_connect_retries_total st + of_nat (length ?made - 1)\<rparr>,
       sleeps_before p ?made)"
    by (simp only: connect_with_backoff_run count_retries_def)
  show "prefix ?made (attempt_numbers p)" "?made \<noteq> []"
    by (simp_all add: attempts_of_def attempted_prefix)
  show "length ?made \<le> unat (max (max_attempts p) 1)" by (rule attempts_of_length(2))
  show "list_all (\<lambda>n. \<not> is_ok (?r n)) (butlast ?made)"
    using attempted_failed [of _ ?r "attempt_numbers p"] by (auto simp: attempts_of_def list_all_iff)
  show "is_ok (?r (last ?made)) \<or> ?made = attempt_numbers p"
    using attempted_last [of "attempt_numbers p" ?r] by (simp add: attempts_of_def)
qed

text \<open>
  C20: The delay before attempt \<open>n\<close> is 0 for the first and \<open>base_delay * 2 ^ (n - 2)\<close> afterwards (the
  factor saturates at the largest \<open>u32\<close>), never above \<open>max_delay\<close>, and it never decreases with
  the attempt number, in spite of the checked shift and multiplication.
\<close>

theorem get_delay_exact:
  assumes "max_delay p \<le> DURATION_MAX"
  shows "get_delay p n =
      min (base_delay p * (if unat n \<le> 1 then 0 else if unat n - 2 < 32 then 2 ^ (unat n - 2) else 2 ^ 32 - 1))
        (max_delay p) \<and>
    get_delay p n \<le> max_delay p \<and> (m \<le> n \<longrightarrow> get_delay p m \<le> get_delay p n)"
proof -
  have "get_delay p m \<le> get_delay p n" if "m \<le> n"
    using backoff_factor_mono [of "unat m" "unat n"] that
    unfolding get_delay_factor [OF assms] by (intro min.mono mult_le_mono2) (simp_all add: word_le_nat_alt)
  then show ?thesis
    using get_delay_factor [OF assms, of n] get_delay_le_max [of p n] by (simp add: backoff_factor_def)
qed

lemma get_delay_exact_witness: "get_delay DEFAULT 3 = dur_from_millis 400 \<and> get_delay DEFAULT 2 \<le> get_delay DEFAULT 3"
  using get_delay_exact [of DEFAULT 3 2] by (simp add: DEFAULT_def std_simps)


text \<open>
  C21: What a relay does, in full. When all four attempts to connect fail, it reports the last error and
  the number of attempts, counts three retries and one failure, and has slept 200, 400 and 800 ms.
  Otherwise it copies over the first connection it gets, having counted a retry and slept for each attempt
  before that one, and returns without an error; the bytes of both directions are counted when the
  copying ends well and none when it ends with an I/O error. No other counter moves.
\<close>

theorem relay_accounting:
  "let r = attempt_result connect endpoint DEFAULT in
   (case find (\<lambda>n. is_ok (r n)) [1, 2, 3, 4] of
      None \<Rightarrow>
        (\<exists>e. r 4 = Inl e \<and>
          relay_to_service connect copy endpoint st =
            (Inl (Failed_to_connect endpoint 4 e),
             st\<lparr>proxy_service_connect_retries_total := proxy_service_connect_retries_total st + 3,
                proxy_service_connect_failures_total := proxy_service_connect_failures_total st + 1\<rparr>,
             [dur_from_millis 200, dur_from_millis 400, dur_from_millis 800]))
    | Some n \<Rightarrow>
        (\<exists>conn. r n = Inr conn \<and>
          (let (up, down) = (case copy conn of Inr bytes \<Rightarrow> bytes | Inl _ \<Rightarrow> (0, 0)) in
           relay_to_service connect copy endpoint st =
             (Inr (),
              st\<lparr>proxy_service_connect_retries_total := proxy_service_connect_retries_total st + (ucast n - 1),
                 proxy_bytes_client_to_service_total := proxy_bytes_client_to_service_total st + up,
                 proxy_bytes_service_to_client_total := proxy_bytes_service_to_client_total st + down\<rparr>,
              take (unat n - 1) [dur_from_millis 200, dur_from_millis 400, dur_from_millis 800]))))"
proof -
  let ?r = "attempt_result connect endpoint DEFAULT"
  have made: "attempts_of connect endpoint DEFAULT = attempted ?r [1, 2, 3, 4]"
    by (simp add: attempts_of_def default_attempt_numbers)
  note run = relay_to_service_def connect_with_backoff_run made count_retries_def sleeps_before_def
    default_delays std_simps
  consider e1 e2 e3 e4 where "?r 1 = Inl e1" "?r 2 = Inl e2" "?r 3 = Inl e3" "?r 4 = Inl e4"
    | e1 e2 e3 c where "?r 1 = Inl e1" "?r 2 = Inl e2" "?r 3 = Inl e3" "?r 4 = Inr c"
    | e1 e2 c where "?r 1 = Inl e1" "?r 2 = Inl e2" "?r 3 = Inr c"
    | e1 c where "?r 1 = Inl e1" "?r 2 = Inr c"
    | c where "?r 1 = Inr c"
    by (metis sum.exhaust)
  then show ?thesis
    by cases (simp_all add: run DEFAULT_def [THEN arg_cong [where f = max_attempts]] split: sum.split prod.split)
qed

lemma relay_accounting_witness:
  "relay_to_service (\<lambda>_ _ n. if n = 3 then Connected () else Connect_elapsed :: (unit, unit) connect_outcome)
     (\<lambda>_. Inr (10, 20)) ''a:1'' (new_stats 0) =
   (Inr (),
    (new_stats 0)\<lparr>proxy_service_connect_retries_total := 2, proxy_bytes_client_to_service_total := 10,
                   proxy_bytes_service_to_client_total := 20\<rparr>,
    [dur_from_millis 200, dur_from_millis 400])"
  using relay_accounting [of "\<lambda>_ _ n. if n = 3 then Connected () else Connect_elapsed :: (unit, unit) connect_outcome"
      "''a:1''" "\<lambda>_. Inr (10, 20)" "new_stats 0"]
  by (simp add: attempt_result_def Let_def new_stats_def)

end
