(* ===== verification/Streams.thy ===== *)
theory Streams
  imports Reprox_Prelude
begin

text \<open>
  \<open>src/route/prefixed_stream.rs\<close> and \<open>src/route/capturing_stream.rs\<close>: the two stream wrappers of
  the passthrough path. \<open>ReadCapturingStream\<close> records what the TLS acceptor reads while it sniffs
  the ClientHello, \<open>PrefixedStream\<close> replays those bytes ahead of the rest of the connection.

  The wrapped socket is a parameter: its \<open>poll_read\<close> function. The locale \<open>byte_source\<close> states
  tokio's \<open>AsyncRead\<close> contract over an abstract \<open>contents\<close> (the bytes the peer has still to
  deliver); both wrappers are shown to satisfy the same contract on top of any source that
  does, so the lemmas on sequences of reads are proved once. A scripted socket, with every kind
  of answer a socket gives, satisfies it too.
\<close>

section \<open>Reads\<close>

text \<open>\<open>std::task::Poll\<close>, and tokio's \<open>ReadBuf\<close>: the bytes filled in so far and the room in all.\<close>

datatype 'a poll = Ready 'a | Pending

record read_buf =
  buf_filled :: bytes
  buf_capacity :: nat

definition buf_remaining :: "read_buf \<Rightarrow> nat" where
  "buf_remaining buf = buf_capacity buf - length (buf_filled buf)"

definition put_slice :: "bytes \<Rightarrow> read_buf \<Rightarrow> read_buf" where
  "put_slice data buf = buf\<lparr>buf_filled := buf_filled buf @ data\<rparr>"

lemma put_slice_simps [simp]:
  "put_slice [] buf = buf"
  "buf_filled (put_slice data buf) = buf_filled buf @ data"
  "buf_capacity (put_slice data buf) = buf_capacity buf"
  by (simp_all add: put_slice_def)

type_synonym ('s, 'e) reader = "'s \<Rightarrow> read_buf \<Rightarrow> ('e + unit) poll \<times> 's \<times> read_buf"
type_synonym ('s, 'e, 'a) io_op = "'s \<Rightarrow> ('e + 'a) poll \<times> 's"


section \<open>PrefixedStream\<close>

record 's prefixed_stream =
  prefix_data :: bytes
  prefix_pos :: nat
  prefix_inner :: 's

definition prefixed_new :: "bytes \<Rightarrow> 's \<Rightarrow> 's prefixed_stream" where
  "prefixed_new data s = \<lparr>prefix_data = data, prefix_pos = 0, prefix_inner = s\<rparr>"

definition prefixed_poll_read :: "('s, 'e) reader \<Rightarrow> ('s prefixed_stream, 'e) reader" where
  "prefixed_poll_read rd this buf =
     (let pos = prefix_pos this; data = prefix_data this in
      if pos < length data then
        let remaining = drop pos data;
            n = min (length remaining) (buf_remaining buf)
        in (Ready (Inr ()), this\<lparr>prefix_pos := pos + n\<rparr>, put_slice (take n remaining) buf)
      else
        let (r, s', buf') = rd (prefix_inner this) buf
        in (r, this\<lparr>prefix_inner := s'\<rparr>, buf'))"

text \<open>The write half hands everything to the socket.\<close>

definition on_prefix_inner :: "('s, 'e, 'a) io_op \<Rightarrow> ('s prefixed_stream, 'e, 'a) io_op" where
  "on_prefix_inner f this = (let (r, s') = f (prefix_inner this) in (r, this\<lparr>prefix_inner := s'\<rparr>))"

definition prefixed_poll_write ::
  "(bytes \<Rightarrow> ('s, 'e, usize) io_op) \<Rightarrow> bytes \<Rightarrow> ('s prefixed_stream, 'e, usize) io_op" where
  "prefixed_poll_write wr buf = on_prefix_inner (wr buf)"

definition prefixed_poll_write_vectored ::
  "(bytes list \<Rightarrow> ('s, 'e, usize) io_op) \<Rightarrow> bytes list \<Rightarrow> ('s prefixed_stream, 'e, usize) io_op" where
  "prefixed_poll_write_vectored wr bufs = on_prefix_inner (wr bufs)"

definition prefixed_is_write_vectored :: "('s \<Rightarrow> bool) \<Rightarrow> 's prefixed_stream \<Rightarrow> bool" where
  "prefixed_is_write_vectored f this = f (prefix_inner this)"

definition prefixed_poll_flush :: "('s, 'e, unit) io_op \<Rightarrow> ('s prefixed_stream, 'e, unit) io_op" where
  "prefixed_poll_flush fl = on_prefix_inner fl"

definition prefixed_poll_shutdown :: "('s, 'e, unit) io_op \<Rightarrow> ('s prefixed_stream, 'e, unit) io_op" where
  "prefixed_poll_shutdown sh = on_prefix_inner sh"


section \<open>ReadCapturingStream\<close>

record 's capturing_stream =
  cap_stream :: 's
  cap_bytes :: bytes

definition capturing_new :: "'s \<Rightarrow> 's capturing_stream" where
  "capturing_new s = \<lparr>cap_stream = s, cap_bytes = []\<rparr>"

definition take_captured :: "'s capturing_stream \<Rightarrow> bytes \<times> 's capturing_stream" where
  "take_captured cs = (cap_bytes cs, cs\<lparr>cap_bytes := []\<rparr>)"

definition into_inner :: "'s capturing_stream \<Rightarrow> 's" where
  "into_inner cs = cap_stream cs"

definition capturing_poll_read :: "('s, 'e) reader \<Rightarrow> ('s capturing_stream, 'e) reader" where
  "capturing_poll_read rd this buf =
     (let before = length (buf_filled buf);
          (poll, s', buf') = rd (cap_stream this) buf
      in (case poll of
            Ready (Inr _) \<Rightarrow>
              (poll, \<lparr>cap_stream = s', cap_bytes = cap_bytes this @ drop before (buf_filled buf')\<rparr>, buf')
          | _ \<Rightarrow> (poll, this\<lparr>cap_stream := s'\<rparr>, buf')))"

definition on_cap_stream :: "('s, 'e, 'a) io_op \<Rightarrow> ('s capturing_stream, 'e, 'a) io_op" where
  "on_cap_stream f this = (let (r, s') = f (cap_stream this) in (r, this\<lparr>cap_stream := s'\<rparr>))"

definition capturing_poll_write ::
  "(bytes \<Rightarrow> ('s, 'e, usize) io_op) \<Rightarrow> bytes \<Rightarrow> ('s capturing_stream, 'e, usize) io_op" where
  "capturing_poll_write wr buf = on_cap_stream (wr buf)"

definition capturing_poll_flush :: "('s, 'e, unit) io_op \<Rightarrow> ('s capturing_stream, 'e, unit) io_op" where
  "capturing_poll_flush fl = on_cap_stream fl"

definition capturing_poll_shutdown :: "('s, 'e, unit) io_op \<Rightarrow> ('s capturing_stream, 'e, unit) io_op" where
  "capturing_poll_shutdown sh = on_cap_stream sh"


section \<open>The contract of a readable stream\<close>

text \<open>
  A reader that is called with the given sizes of fresh buffers, one after the other, and what it
  delivered; and the same for a reader that ends the connection at the first error.
\<close>

fun read_all :: "('s, 'e) reader \<Rightarrow> nat list \<Rightarrow> 's \<Rightarrow> bytes \<times> 's" where
  "read_all rd [] s = ([], s)"
| "read_all rd (n # ns) s =
     (let (_, s', buf') = rd s \<lparr>buf_filled = [], buf_capacity = n\<rparr>;
          (out, s'') = read_all rd ns s'
      in (buf_filled buf' @ out, s''))"

locale byte_source =
  fixes rd :: "('s, 'e) reader"
    and contents :: "'s \<Rightarrow> bytes"
  assumes ready: "rd s buf = (Ready (Inr u), s', buf') \<Longrightarrow>
      \<exists>ds. buf' = put_slice ds buf \<and> length ds \<le> buf_remaining buf \<and> contents s = ds @ contents s'"
    and stalled: "rd s buf = (r, s', buf') \<Longrightarrow> (\<forall>u. r \<noteq> Ready (Inr u)) \<Longrightarrow>
      buf' = buf \<and> contents s' = contents s"
    and progress: "rd s buf = (Ready (Inr u), s', buf') \<Longrightarrow> buf' = buf \<Longrightarrow>
      0 < buf_remaining buf \<Longrightarrow> contents s = []"
begin

text \<open>One read moves a piece of the contents into the buffer, whatever its answer.\<close>

lemma one_read:
  assumes "rd s buf = (r, s', buf')"
  obtains ds where "buf' = put_slice ds buf" "length ds \<le> buf_remaining buf"
    "contents s = ds @ contents s'"
proof (cases "\<exists>u. r = Ready (Inr u)")
  case True
  then show ?thesis using ready assms that by blast
next
  case False
  then show ?thesis using stalled [OF assms] that [of "[]"] by auto
qed

lemma read_all_contents: "read_all rd ns s = (out, s') \<Longrightarrow> contents s = out @ contents s'"
proof (induction ns arbitrary: s s' out)
  case Nil
  then show ?case by simp
next
  case (Cons n ns)
  let ?buf = "\<lparr>buf_filled = [], buf_capacity = n\<rparr>"
  obtain r s1 buf1 where 1: "rd s ?buf = (r, s1, buf1)" by (cases "rd s ?buf") auto
  obtain out1 s2 where 2: "read_all rd ns s1 = (out1, s2)" by fastforce
  from 1 obtain ds where ds: "buf1 = put_slice ds ?buf" "contents s = ds @ contents s1"
    by (rule one_read)
  have "out = ds @ out1" "s' = s2" using Cons.prems 1 2 ds(1) by auto
  then show ?case using ds(2) Cons.IH [OF 2] by simp
qed

text \<open>Two readers over the same contents deliver comparable streams: neither invents a byte.\<close>

lemma delivered_prefix: "read_all rd ns s = (out, s') \<Longrightarrow> prefix out (contents s)"
  using read_all_contents by (auto simp: prefix_def)

end

text \<open>What a wrapped stream has still to deliver.\<close>

definition prefixed_contents :: "('s \<Rightarrow> bytes) \<Rightarrow> 's prefixed_stream \<Rightarrow> bytes" where
  "prefixed_contents c ps = drop (prefix_pos ps) (prefix_data ps) @ c (prefix_inner ps)"

definition capturing_contents :: "('s \<Rightarrow> bytes) \<Rightarrow> 's capturing_stream \<Rightarrow> bytes" where
  "capturing_contents c cs = c (cap_stream cs)"

lemma prefixed_new_contents [simp]: "prefixed_contents c (prefixed_new data s) = data @ c s"
  by (simp add: prefixed_contents_def prefixed_new_def)

lemma capturing_new_simps [simp]:
  "cap_bytes (capturing_new s) = []" "cap_stream (capturing_new s) = s"
  "capturing_contents c (capturing_new s) = c s"
  by (simp_all add: capturing_new_def capturing_contents_def)

lemma prefixed_poll_read_prefix:
  assumes "prefix_pos ps < length (prefix_data ps)"
  shows "\<exists>ps' ds. prefixed_poll_read rd ps buf = (Ready (Inr ()), ps', put_slice ds buf) \<and>
    length ds = min (length (prefix_data ps) - prefix_pos ps) (buf_remaining buf) \<and>
    prefixed_contents c ps = ds @ prefixed_contents c ps'"
proof -
  let ?rest = "drop (prefix_pos ps) (prefix_data ps)"
  let ?n = "min (length ?rest) (buf_remaining buf)"
  have "take ?n ?rest @ drop (prefix_pos ps + ?n) (prefix_data ps) = ?rest"
    by (metis append_take_drop_id drop_drop add.commute)
  then show ?thesis using assms
    by (intro exI [of _ "ps\<lparr>prefix_pos := prefix_pos ps + ?n\<rparr>"] exI [of _ "take ?n ?rest"])
      (simp add: prefixed_poll_read_def prefixed_contents_def Let_def del: take_drop drop_drop)
qed

lemma prefixed_poll_read_socket:
  "\<not> prefix_pos ps < length (prefix_data ps) \<Longrightarrow>
    prefixed_poll_read rd ps buf =
      (case rd (prefix_inner ps) buf of (r, s', buf') \<Rightarrow> (r, ps\<lparr>prefix_inner := s'\<rparr>, buf'))"
  by (simp add: prefixed_poll_read_def)

context byte_source
begin

text \<open>Each wrapper of a byte source is a byte source.\<close>

lemma prefixed_source: "byte_source (prefixed_poll_read rd) (prefixed_contents contents)"
proof (unfold_locales, goal_cases)
  case (1 ps buf u ps' buf')
  show ?case
  proof (cases "prefix_pos ps < length (prefix_data ps)")
    case True
    then show ?thesis using prefixed_poll_read_prefix [OF True, of rd buf contents] 1 by auto
  next
    case False
    obtain s1 where "rd (prefix_inner ps) buf = (Ready (Inr u), s1, buf')"
      and "ps' = ps\<lparr>prefix_inner := s1\<rparr>"
      using 1 False by (auto simp: prefixed_poll_read_socket split: prod.splits)
    then show ?thesis using ready [of "prefix_inner ps" buf u s1 buf'] False
      by (auto simp: prefixed_contents_def)
  qed
next
  case (2 ps buf r ps' buf')
  show ?case
  proof (cases "prefix_pos ps < length (prefix_data ps)")
    case True
    then show ?thesis using prefixed_poll_read_prefix [OF True, of rd buf contents] 2 by auto
  next
    case False
    obtain s1 where "rd (prefix_inner ps) buf = (r, s1, buf')" and "ps' = ps\<lparr>prefix_inner := s1\<rparr>"
      using 2 False by (auto simp: prefixed_poll_read_socket split: prod.splits)
    then show ?thesis using stalled [of "prefix_inner ps" buf r s1 buf'] 2(2)
      by (auto simp: prefixed_contents_def)
  qed
next
  case (3 ps buf u ps' buf')
  show ?case
  proof (cases "prefix_pos ps < length (prefix_data ps)")
    case True
    then obtain ds where "buf' = put_slice ds buf"
      and "length ds = min (length (prefix_data ps) - prefix_pos ps) (buf_remaining buf)"
      using prefixed_poll_read_prefix [OF True, of rd buf contents] 3(1) by auto
    then show ?thesis using 3(2,3) True
      by (cases ds) (auto simp: put_slice_def dest: arg_cong [where f = buf_filled])
  next
    case False
    obtain s1 where "rd (prefix_inner ps) buf = (Ready (Inr u), s1, buf')"
      using 3(1) False by (auto simp: prefixed_poll_read_socket split: prod.splits)
    then show ?thesis using progress [of "prefix_inner ps" buf u s1 buf'] 3(2,3) False
      by (simp add: prefixed_contents_def)
  qed
qed

lemma capturing_read:
  assumes "capturing_poll_read rd cs buf = (r, cs', buf')"
  shows "\<exists>s1. rd (cap_stream cs) buf = (r, s1, buf') \<and> cap_stream cs' = s1"
    and "\<exists>ds. buf' = put_slice ds buf \<and> cap_bytes cs' = cap_bytes cs @ ds"
proof -
  obtain r1 s1 buf1 where 1: "rd (cap_stream cs) buf = (r1, s1, buf1)"
    by (cases "rd (cap_stream cs) buf") auto
  then have eq: "r1 = r" "buf1 = buf'" "cap_stream cs' = s1"
    using assms by (auto simp: capturing_poll_read_def split: poll.splits sum.splits)
  then show "\<exists>s1. rd (cap_stream cs) buf = (r, s1, buf') \<and> cap_stream cs' = s1" using 1 by simp
  show "\<exists>ds. buf' = put_slice ds buf \<and> cap_bytes cs' = cap_bytes cs @ ds"
  proof (cases "\<exists>u. r = Ready (Inr u)")
    case True
    then obtain u where u: "r = Ready (Inr u)" ..
    then obtain ds where "buf' = put_slice ds buf" using ready 1 eq by blast
    then show ?thesis using assms 1 eq u by (auto simp: capturing_poll_read_def)
  next
    case False
    then have "buf' = buf" using stalled 1 eq by auto
    then show ?thesis using assms 1 False
      by (intro exI [of _ "[]"])
        (auto simp: capturing_poll_read_def split: poll.splits sum.splits)
  qed
qed

lemma capturing_source: "byte_source (capturing_poll_read rd) (capturing_contents contents)"
proof (unfold_locales, goal_cases)
  case (1 cs buf u cs' buf')
  then show ?case using capturing_read(1) ready by (fastforce simp: capturing_contents_def)
next
  case (2 cs buf r cs' buf')
  then show ?case using capturing_read(1) stalled by (fastforce simp: capturing_contents_def)
next
  case (3 cs buf u cs' buf')
  then show ?case using capturing_read(1) progress by (fastforce simp: capturing_contents_def)
qed

text \<open>Everything that was read is kept, in order.\<close>

lemma captured_all:
  "read_all (capturing_poll_read rd) ns cs = (out, cs') \<Longrightarrow> cap_bytes cs' = cap_bytes cs @ out"
proof (induction ns arbitrary: cs cs' out)
  case Nil
  then show ?case by simp
next
  case (Cons n ns)
  let ?buf = "\<lparr>buf_filled = [], buf_capacity = n\<rparr>"
  obtain r cs1 buf1 where 1: "capturing_poll_read rd cs ?buf = (r, cs1, buf1)"
    by (cases "capturing_poll_read rd cs ?buf") auto
  obtain out1 cs2 where 2: "read_all (capturing_poll_read rd) ns cs1 = (out1, cs2)" by fastforce
  obtain ds where "buf1 = put_slice ds ?buf" "cap_bytes cs1 = cap_bytes cs @ ds"
    using capturing_read(2) [OF 1] by auto
  then show ?case using Cons.prems Cons.IH [OF 2] 1 2 by simp
qed

end

text \<open>
  The two wrappers as they are used together: the acceptor reads through a capturing stream, and
  the rest of the connection through a prefixed stream over the same socket.
\<close>

locale sniffed_source = byte_source

sublocale sniffed_source \<subseteq> prefixed: byte_source "prefixed_poll_read rd" "prefixed_contents contents"
  by (rule prefixed_source)

sublocale sniffed_source \<subseteq> capturing: byte_source "capturing_poll_read rd" "capturing_contents contents"
  by (rule capturing_source)

context sniffed_source
begin

lemma replay:
  assumes sniff: "read_all (capturing_poll_read rd) ns (capturing_new s) = (sniffed, cs)"
    and taken: "take_captured cs = (data, cs')"
    and rest: "read_all (prefixed_poll_read rd) ms (prefixed_new data (into_inner cs')) = (out, ps)"
  shows "data = sniffed" and "contents s = out @ prefixed_contents contents ps"
proof -
  show data: "data = sniffed"
    using captured_all [OF sniff] taken by (simp add: take_captured_def)
  have "contents s = sniffed @ contents (cap_stream cs)"
    using capturing.read_all_contents [OF sniff] by (simp add: capturing_contents_def)
  also have "\<dots> = prefixed_contents contents (prefixed_new data (into_inner cs'))"
    using taken data by (auto simp: take_captured_def into_inner_def)
  also have "\<dots> = out @ prefixed_contents contents ps"
    by (rule prefixed.read_all_contents [OF rest])
  finally show "contents s = out @ prefixed_contents contents ps" .
qed

end


section \<open>A scripted socket\<close>

text \<open>Every answer a socket gives to a read: data, not ready yet, an error, end of stream.\<close>

datatype 'e socket_event = Arrives bytes | Would_block | Fails 'e

fun script_poll_read :: "('e socket_event list, 'e) reader" where
  "script_poll_read [] buf = (Ready (Inr ()), [], buf)"
| "script_poll_read (Would_block # es) buf = (Pending, es, buf)"
| "script_poll_read (Fails e # es) buf = (Ready (Inl e), es, buf)"
| "script_poll_read (Arrives ds # es) buf =
     (if ds = [] then script_poll_read es buf
      else if length ds \<le> buf_remaining buf then (Ready (Inr ()), es, put_slice ds buf)
      else let n = buf_remaining buf
           in (Ready (Inr ()), Arrives (drop n ds) # es, put_slice (take n ds) buf))"

fun script_contents :: "'e socket_event list \<Rightarrow> bytes" where
  "script_contents [] = []"
| "script_contents (Arrives ds # es) = ds @ script_contents es"
| "script_contents (_ # es) = script_contents es"

lemma script_ready:
  "script_poll_read s buf = (Ready (Inr u), s', buf') \<Longrightarrow>
    \<exists>ds. buf' = put_slice ds buf \<and> length ds \<le> buf_remaining buf \<and>
      script_contents s = ds @ script_contents s' \<and>
      (buf' = buf \<longrightarrow> 0 < buf_remaining buf \<longrightarrow> script_contents s = [])"
proof (induction s buf rule: script_poll_read.induct)
  case (4 ds es buf)
  consider "ds = []" | "ds \<noteq> []" "length ds \<le> buf_remaining buf"
    | "ds \<noteq> []" "buf_remaining buf < length ds" by linarith
  then show ?case
  proof cases
    case 1
    then show ?thesis using 4 by simp
  next
    case 2
    then show ?thesis using 4(2)
      by (intro exI [of _ ds]) (auto dest: arg_cong [where f = buf_filled])
  next
    case 3
    then show ?thesis using 4(2)
      by (intro exI [of _ "take (buf_remaining buf) ds"])
        (auto simp: Let_def dest: arg_cong [where f = buf_filled])
  qed
qed auto

lemma script_stalled:
  "script_poll_read s buf = (r, s', buf') \<Longrightarrow> (\<forall>u. r \<noteq> Ready (Inr u)) \<Longrightarrow>
    buf' = buf \<and> script_contents s' = script_contents s"
  by (induction s buf rule: script_poll_read.induct) (auto simp: Let_def split: if_splits)

interpretation script: sniffed_source script_poll_read script_contents
  by unfold_locales (use script_ready script_stalled in blast)+

end
