(* ===== verification/Router.thy ===== *)
theory Router
  imports Http_Serve Proxy Streams
begin

text \<open>
  \<open>src/route/router.rs\<close>: the routing table built from the configuration, its swap on a reload, and
  the routing of one connection: sniff the ClientHello, look the server name up, then relay the
  raw bytes, terminate TLS and relay, or serve the fallback site.

  One connection is split where other connections can run in between: \<open>route_start\<close> (snapshot,
  sniffing, lookup, creation of the guard), \<open>route_body\<close> and the drop of the guard; \<open>route\<close> is
  their sequence. What happens on the socket is in the record \<open>net\<close> of parameters: the outcome of
  reading the ClientHello, of the handshake, of connecting and of copying.
\<close>

definition default_alpn_protocols :: "bytes list" where
  "default_alpn_protocols = [''h2'', ''http/1.1'']"

section \<open>The table\<close>

record router_state =
  rs_routes :: "string \<Rightarrow> proxy_target option"
  rs_server_config :: server_config
  rs_config :: service_config

text \<open>The loop of inserts: a later route with the same key replaces an earlier one.\<close>

definition routes_table :: "proxy_target list \<Rightarrow> string \<Rightarrow> proxy_target option" where
  "routes_table ts = fold (\<lambda>t m. m(sni t \<mapsto> t)) ts Map.empty"

text \<open>\<open>Inl\<close> is the panic of \<open>expect\<close> in \<open>RouterState::new\<close>.\<close>

definition router_state_new ::
  "(protocol_version list \<Rightarrow> bool) \<Rightarrow> resolver_ref \<Rightarrow> service_config \<Rightarrow> tls_error + router_state" where
  "router_state_new versions_ok resolver cfg =
     rbind (build_server_config versions_ok resolver default_alpn_protocols cfg) (\<lambda>sc.
     Inr \<lparr>rs_routes = routes_table (routes cfg), rs_server_config = sc, rs_config = cfg\<rparr>)"

record router =
  r_state :: router_state
  r_cert_resolver :: resolver_ref
  r_site :: static_site

definition router_new ::
  "(protocol_version list \<Rightarrow> bool) \<Rightarrow> resolver_ref \<Rightarrow> static_site \<Rightarrow> service_config
    \<Rightarrow> tls_error + router" where
  "router_new versions_ok resolver site cfg =
     rbind (router_state_new versions_ok resolver cfg) (\<lambda>s.
     Inr \<lparr>r_state = s, r_cert_resolver = resolver, r_site = site\<rparr>)"

definition router_reload ::
  "(protocol_version list \<Rightarrow> bool) \<Rightarrow> service_config \<Rightarrow> router \<Rightarrow> tls_error + router" where
  "router_reload versions_ok cfg r =
     rbind (router_state_new versions_ok (r_cert_resolver r) cfg) (\<lambda>new_state.
     Inr (r\<lparr>r_state := new_state\<rparr>))"


section \<open>One connection\<close>

text \<open>What \<open>timeout(d, acceptor)\<close> returns: the server name of the ClientHello, if it has one, with the
  stream, or a read error or the timeout, with what \<open>take_io\<close> then gets back from the acceptor.\<close>

datatype 's probe_outcome =
  Client_hello "string option" "'s capturing_stream"
| Probe_io_error "'s capturing_stream option"
| Probe_timeout "'s capturing_stream option"

record ('s, 'e, 'conn) net =
  net_sniff :: "duration \<Rightarrow> 's capturing_stream \<Rightarrow> 's probe_outcome"
  net_shutdown :: "'s \<Rightarrow> 's"
  net_handshake :: "'s \<Rightarrow> handshake"
  net_connect :: "('e, 'conn) connector"
  net_copy_raw :: "'s prefixed_stream \<Rightarrow> ('e, 'conn) relay"
  net_copy_tls :: "'s \<Rightarrow> server_config \<Rightarrow> ('e, 'conn) relay"
  net_requests :: "'s \<Rightarrow> (int \<times> http_request) list"

definition count_sni :: "string option \<Rightarrow> stats \<Rightarrow> stats" where
  "count_sni name st =
     (case name of
        Some _ \<Rightarrow> st\<lparr>sni_present_total := sni_present_total st + 1\<rparr>
      | None \<Rightarrow> st\<lparr>sni_absent_total := sni_absent_total st + 1\<rparr>)"

definition route_target :: "router_state \<Rightarrow> string option \<Rightarrow> proxy_target option" where
  "route_target s name = Option.bind name (rs_routes s)"

text \<open>\<open>if let Some(mut stream) = acceptor.take_io()\<close>: the socket is shut down through its wrapper and the
  result ignored.\<close>

definition shut_down :: "('s, 'e, 'conn) net \<Rightarrow> 's capturing_stream option \<Rightarrow> 's capturing_stream option" where
  "shut_down net io = map_option (\<lambda>cs. cs\<lparr>cap_stream := net_shutdown net (cap_stream cs)\<rparr>) io"

text \<open>A connection that is being served: its snapshot, its route, its guard and its stream.\<close>

record 's serving =
  sv_state :: router_state
  sv_target :: "proxy_target option"
  sv_guard :: active_guard
  sv_io :: "'s capturing_stream"

datatype 's started = Closed "'s capturing_stream option" | Served "'s serving"

definition route_start ::
  "('s, 'e, 'conn) net \<Rightarrow> router \<Rightarrow> instant \<Rightarrow> 's \<Rightarrow> stats \<Rightarrow> 's started \<times> stats" where
  "route_start net r now stream st =
     (let state = r_state r;
          start_handshake_timeout = dur_from_secs (unat (start_handshake_timeout_secs (rs_config state)))
      in case net_sniff net start_handshake_timeout (capturing_new stream) of
           Probe_io_error io \<Rightarrow>
             (Closed (shut_down net io),
              st\<lparr>connections_probe_io_error_total := connections_probe_io_error_total st + 1\<rparr>)
         | Probe_timeout io \<Rightarrow>
             (Closed (shut_down net io),
              st\<lparr>connections_probe_timeout_total := connections_probe_timeout_total st + 1\<rparr>)
         | Client_hello name io \<Rightarrow>
             let st1 = count_sni name st;
                 target = route_target state name;
                 (guard, st2) = (case target of
                                   Some _ \<Rightarrow> begin_proxied now st1
                                 | None \<Rightarrow> begin_fallback now st1)
             in (Served \<lparr>sv_state = state, sv_target = target, sv_guard = guard, sv_io = io\<rparr>, st2))"

datatype 'e route_error = Tls_failed tls_error | Proxy_failed "'e proxy_error"

text \<open>The result of a connection, and what the fallback site answered.\<close>

type_synonym 'e route_result = "('e route_error + unit) \<times> (http_protocol \<times> response list) option"

definition route_body ::
  "(protocol_version list \<Rightarrow> bool) \<Rightarrow> http_lib \<Rightarrow> ('s, 'e, 'conn) net \<Rightarrow> router \<Rightarrow> 's serving \<Rightarrow> stats
    \<Rightarrow> 'e route_result \<times> stats" where
  "route_body versions_ok lib net r sv st =
     (let state = sv_state sv; io = sv_io sv in
      case sv_target sv of
        Some target \<Rightarrow>
          if tls_passthrough target then
            let (captured_bytes, io') = take_captured io;
                prefixed_stream = prefixed_new captured_bytes (into_inner io');
                (res, st1, _) = proxy (net_connect net) (net_copy_raw net prefixed_stream) (upstream target) st
            in ((map_err Proxy_failed res, None), st1)
          else
            (case (case alpn_protocols target of
                     Some alpn \<Rightarrow>
                       build_server_config versions_ok (r_cert_resolver r) alpn (rs_config state)
                   | None \<Rightarrow> Inr (rs_server_config state)) of
               Inl e \<Rightarrow> ((Inl (Tls_failed e), None), st)
             | Inr sc \<Rightarrow>
                 let stream = into_inner io;
                     (res, st1, _) = proxy_with_tls_termination (net_handshake net stream)
                       (net_connect net) (net_copy_tls net stream sc) sc (upstream target)
                       (rs_config state) st
                 in ((map_err Proxy_failed res, None), st1))
      | None \<Rightarrow>
          let stream = into_inner io;
              (served, st1) = serve lib (net_handshake net stream) (rs_server_config state)
                (r_site r) (rs_config state) (net_requests net stream) st
          in ((Inr (), served), st1))"

text \<open>The guard \<open>_active\<close> is dropped on every way out of the body, the error of
  \<open>build_server_config\<close> included.\<close>

definition route ::
  "(protocol_version list \<Rightarrow> bool) \<Rightarrow> http_lib \<Rightarrow> ('s, 'e, 'conn) net \<Rightarrow> router \<Rightarrow> instant \<Rightarrow> instant
    \<Rightarrow> 's \<Rightarrow> stats \<Rightarrow> 'e route_result \<times> stats" where
  "route versions_ok lib net r t0 t1 stream st =
     (case route_start net r t0 stream st of
        (Closed _, st1) \<Rightarrow> ((Inr (), None), st1)
      | (Served sv, st1) \<Rightarrow>
          let (res, st2) = route_body versions_ok lib net r sv st1
          in (res, drop_guard t1 (sv_guard sv) st2))"


section \<open>Lookups\<close>

lemma fold_routes:
  "distinct (map sni ts) \<Longrightarrow>
    fold (\<lambda>t m. m(sni t \<mapsto> t)) ts m0 k =
      (case find (\<lambda>t. sni t = k) ts of Some t \<Rightarrow> Some t | None \<Rightarrow> m0 k)"
proof (induction ts arbitrary: m0)
  case Nil
  then show ?case by simp
next
  case (Cons t ts)
  have "find (\<lambda>u. sni u = sni t) ts = None"
    using Cons.prems by (auto simp: find_None_iff image_iff)
  then show ?case using Cons by auto
qed

lemma routes_table_find:
  "distinct (map sni ts) \<Longrightarrow> routes_table ts k = find (\<lambda>t. sni t = k) ts"
  by (simp add: routes_table_def fold_routes split: option.split)

lemma routes_table_iff:
  assumes "distinct (map sni ts)"
  shows "routes_table ts k = Some t \<longleftrightarrow> t \<in> set ts \<and> sni t = k"
proof -
  have "t' = t" if "t' \<in> set ts" "t \<in> set ts" "sni t' = sni t" for t'
    using assms that by (auto simp: distinct_map dest: inj_onD)
  then show ?thesis
    unfolding routes_table_find [OF assms] find_Some_iff
    using assms by (auto simp: in_set_conv_nth distinct_map) 
      (metis (no_types, lifting) assms distinct_conv_nth length_map nat_neq_iff nth_map order.strict_trans)
qed

lemma router_state_new_ok:
  assumes "provider_supports versions_ok"
  shows "router_state_new versions_ok resolver cfg =
    Inr \<lparr>rs_routes = routes_table (routes cfg),
         rs_server_config = \<lparr>sc_versions = tls_versions cfg, sc_resolver = resolver,
                             sc_alpn = default_alpn_protocols\<rparr>,
         rs_config = cfg\<rparr>"
  using assms by (simp add: router_state_new_def build_server_config_ok)

lemma router_new_ok:
  assumes "provider_supports versions_ok"
  shows "\<exists>r. router_new versions_ok resolver site cfg = Inr r \<and> r_cert_resolver r = resolver \<and>
    r_site r = site \<and> router_state_new versions_ok resolver cfg = Inr (r_state r)"
  using assms by (simp add: router_new_def router_state_new_ok)


section \<open>Accounting of a connection\<close>

text \<open>Nothing between the creation of a guard and its drop touches the gauges or the slot counter.\<close>

definition gauges :: "stats \<Rightarrow> u64 \<times> i64 \<times> i64" where
  "gauges st = (connections st, active_proxied st, active_fallback st)"

text \<open>What the body of a connection leaves alone.\<close>

definition untouched :: "stats \<Rightarrow> (u64 \<times> i64 \<times> i64) \<times> u64 \<times> u64 \<times> u64 \<times> u64 \<times> u64 \<times> u64 \<times> u64 \<times> u64" where
  "untouched st = (gauges st, connections_proxied_total st, connections_fallback_total st,
     connections_proxied_completed_total st, connections_fallback_completed_total st,
     connections_probe_timeout_total st, connections_probe_io_error_total st,
     connections_rejected_rate_limit_total st, connections_rejected_ip_limit_total st)"

lemmas untouched_defs = untouched_def gauges_def

lemma untouched_simps [simp]:
  "untouched (count_retries k st) = untouched st"
  "untouched (count_method m st) = untouched st"
  "untouched (count_status c st) = untouched st"
  "untouched (count_alpn alpn st) = untouched st"
  "untouched (count_sni name st) = untouched st"
  "untouched (record_response_metrics lib st resp) = untouched st"
proof -
  show st: "untouched (count_status c st) = untouched st" for c st
    by (simp add: untouched_defs count_status_def)
  show "untouched (record_response_metrics lib st resp) = untouched st"
    using st [of "status resp" st]
    by (simp add: record_response_metrics_def Let_def untouched_defs split: option.split)
qed (simp_all add: untouched_defs count_retries_def count_method_def count_alpn_def count_sni_def
    split: option.split)

lemma handle_all_untouched: "untouched (snd (handle_all lib site cfg reqs st)) = untouched st"
proof (induction lib site cfg reqs st rule: handle_all.induct)
  case (2 lib site cfg now req reqs st)
  obtain resp st1 where one: "handle_http lib now req site cfg st = (resp, st1)" by fastforce
  then have "untouched st1 = untouched st" by (auto simp: handle_http_def Let_def)
  then show ?case using "2.IH" [OF one [symmetric] refl] one
    by (simp add: case_prod_unfold Let_def)
qed simp

lemma serve_untouched: "untouched (snd (serve lib hs sc site cfg reqs st)) = untouched st"
proof (cases "hs (dur_from_secs (unat (handshake_timeout_secs cfg))) sc")
  case (Handshake_ok alpn)
  let ?st1 = "st\<lparr>fallback_tls_handshake_success_total := fallback_tls_handshake_success_total st + 1\<rparr>"
  have "untouched ?st1 = untouched st" by (simp add: untouched_defs)
  then show ?thesis using Handshake_ok handle_all_untouched [of lib site cfg reqs "count_alpn alpn ?st1"]
    by (simp add: serve_def case_prod_unfold Let_def)
qed (simp_all add: serve_def untouched_defs)

lemma relay_untouched: "untouched (fst (snd (relay_to_service connect copy endpoint st))) = untouched st"
proof -
  have upd: "untouched (st1\<lparr>proxy_service_connect_failures_total := a\<rparr>) = untouched st1"
    "untouched (st1\<lparr>proxy_bytes_client_to_service_total := a, proxy_bytes_service_to_client_total := b\<rparr>)
      = untouched st1" for st1 a b
    by (simp_all add: untouched_defs)
  show ?thesis
    by (simp add: relay_to_service_def connect_with_backoff_run upd split: sum.split prod.split)
qed

lemma termination_untouched:
  "untouched (fst (snd (proxy_with_tls_termination hs connect copy sc endpoint cfg st))) = untouched st"
proof (cases "hs (dur_from_secs (unat (handshake_timeout_secs cfg))) sc")
  case (Handshake_ok alpn)
  let ?st1 = "st\<lparr>proxy_tls_handshake_success_total := proxy_tls_handshake_success_total st + 1\<rparr>"
  have "untouched ?st1 = untouched st" by (simp add: untouched_defs)
  then show ?thesis using Handshake_ok relay_untouched [of connect copy endpoint ?st1]
    by (simp add: proxy_with_tls_termination_def)
qed (simp_all add: proxy_with_tls_termination_def untouched_defs)

lemma route_body_untouched: "untouched (snd (route_body versions_ok lib net r sv st)) = untouched st"
proof (cases "sv_target sv")
  case None
  then show ?thesis by (simp add: route_body_def case_prod_unfold Let_def serve_untouched)
next
  case (Some t)
  show ?thesis
  proof (cases "tls_passthrough t")
    case True
    then show ?thesis using Some
      by (simp add: route_body_def proxy_def case_prod_unfold Let_def relay_untouched)
  next
    case False
    then show ?thesis using Some
      by (simp add: route_body_def case_prod_unfold Let_def termination_untouched split: sum.split)
  qed
qed

lemma route_body_gauges: "gauges (snd (route_body versions_ok lib net r sv st)) = gauges st"
  using route_body_untouched [of versions_ok lib net r sv st] by (simp add: untouched_def)

lemma route_start_gauges:
  "route_start net r now stream st = (Closed io, st') \<Longrightarrow> gauges st' = gauges st"
  "route_start net r now stream st = (Served sv, st') \<Longrightarrow>
    connections st' = connections st \<and>
    guard_gauge k st' = guard_gauge k st + (if guard_route (sv_guard sv) = k then 1 else 0)"
  by (auto simp: route_start_def Let_def gauges_def guard_gauge_def begin_proxied_def
      begin_fallback_def count_sni_def
      split: prod.splits probe_outcome.splits option.splits route_kind.splits)

lemma guard_gauge_gauges: "gauges st = gauges st' \<Longrightarrow> guard_gauge k st = guard_gauge k st'"
  by (simp add: gauges_def guard_gauge_def split: route_kind.split)


section \<open>Properties\<close>

definition sample_site_router :: router where
  "sample_site_router =
     \<lparr>r_state = \<lparr>rs_routes = routes_table (routes sample_config),
        rs_server_config = \<lparr>sc_versions = [TLS13], sc_resolver = 0, sc_alpn = default_alpn_protocols\<rparr>,
        rs_config = sample_config\<rparr>,
      r_cert_resolver = 0, r_site = sample_static_site\<rparr>"

lemma sample_router: "router_new (\<lambda>_. True) 0 sample_static_site sample_config = Inr sample_site_router"
  by (simp add: router_new_def router_state_new_def build_server_config_def tls_versions_def
      sample_site_router_def) (simp add: sample_config_def)

text \<open>
  C16: With the configuration it was built or reloaded from, the router sends a connection to a
  route exactly when the ClientHello carries the server name of that route; every other name, and
  no name, goes to the fallback site.
\<close>

theorem lookup_exact:
  assumes "try_load toml h = Inr cfg"
    and "router_new versions_ok resolver site cfg = Inr r \<or> router_reload versions_ok cfg r0 = Inr r"
  shows "(route_target (r_state r) name = Some t \<longleftrightarrow> name = Some (sni t) \<and> t \<in> set (routes cfg)) \<and>
    (route_target (r_state r) name = None \<longleftrightarrow> name \<notin> Some ` sni ` set (routes cfg)) \<and>
    rs_config (r_state r) = cfg"
proof -
  have d: "distinct (map sni (routes cfg))"
    using try_load_Inr(1) [OF assms(1)] by (simp add: wf_config_def)
  have "rs_routes (r_state r) = routes_table (routes cfg) \<and> rs_config (r_state r) = cfg"
    using assms(2) by (auto simp: router_new_def router_reload_def router_state_new_def rbind_Inr_iff)
  then have target: "route_target (r_state r) n = Some u \<longleftrightarrow> n = Some (sni u) \<and> u \<in> set (routes cfg)" for n u
    using routes_table_iff [OF d] by (auto simp: route_target_def bind_eq_Some_conv)
  have "route_target (r_state r) name = None \<longleftrightarrow> (\<forall>u. route_target (r_state r) name \<noteq> Some u)" by auto
  then show ?thesis
    using target \<open>rs_routes _ = _ \<and> rs_config _ = _\<close> by auto
qed

lemma lookup_exact_witness:
  "route_target (r_state sample_site_router) (Some ''app.example'') = Some (hd (routes sample_config)) \<and>
   route_target (r_state sample_site_router) None = None"
proof -
  have r: "router_new (\<lambda>_. True) 0 sample_static_site sample_config = Inr sample_site_router \<or>
      router_reload (\<lambda>_. True) sample_config sample_site_router = Inr sample_site_router"
    by (rule disjI1 [OF sample_router])
  have "Some ''app.example'' = Some (sni (hd (routes sample_config))) \<and>
      hd (routes sample_config) \<in> set (routes sample_config)"
    by (simp add: sample_config_def)
  then show ?thesis
    using lookup_exact [OF sample_loads r, of "Some ''app.example''" "hd (routes sample_config)"]
      lookup_exact [OF sample_loads r, of None] by auto
qed

lemma route_start_io:
  "route_start net r now stream st = (Served sv, st') \<Longrightarrow>
    \<exists>name. net_sniff net (dur_from_secs (unat (start_handshake_timeout_secs (rs_config (r_state r)))))
      (capturing_new stream) = Client_hello name (sv_io sv)"
  by (auto simp: route_start_def Let_def split: prod.splits probe_outcome.splits)

text \<open>What is relied on of the acceptor: it touches the wrapped socket only by reading from it.\<close>

definition sniffs_by_reading :: "('s, 'e, 'conn) net \<Rightarrow> ('s, 'i) reader \<Rightarrow> bool" where
  "sniffs_by_reading net rd \<longleftrightarrow>
     (\<forall>d cs name io. net_sniff net d cs = Client_hello name io \<longrightarrow>
        (\<exists>ns. io = snd (read_all (capturing_poll_read rd) ns cs)))"

text \<open>
  C17: On a passthrough route the upstream gets the connection from its first byte: the stream that
  is handed to the proxy delivers, under any sequence of reads, exactly what the client sent,
  including everything that was consumed while the ClientHello was sniffed.
\<close>

theorem passthrough_replays:
  assumes "byte_source rd contents" "sniffs_by_reading net rd"
    and "route_start net r now stream st = (Served sv, st')" "sv_target sv = Some t" "tls_passthrough t"
  shows "let ps = prefixed_new (cap_bytes (sv_io sv)) (cap_stream (sv_io sv));
             relayed = proxy (net_connect net) (net_copy_raw net ps) (upstream t) st'
    in route_body versions_ok lib net r sv st' =
         ((map_err Proxy_failed (fst relayed), None), fst (snd relayed)) \<and>
       prefixed_contents contents ps = contents stream \<and>
       (\<forall>ms out ps'. read_all (prefixed_poll_read rd) ms ps = (out, ps') \<longrightarrow>
          contents stream = out @ prefixed_contents contents ps')"
proof -
  have src: "sniffed_source rd contents" by (rule sniffed_source.intro [OF assms(1)])
  obtain ns where io: "sv_io sv = snd (read_all (capturing_poll_read rd) ns (capturing_new stream))"
    using assms(2) route_start_io [OF assms(3)] unfolding sniffs_by_reading_def by metis
  obtain sniffed where sniff: "read_all (capturing_poll_read rd) ns (capturing_new stream) = (sniffed, sv_io sv)"
    using io by (metis prod.collapse)
  have taken: "take_captured (sv_io sv) = (cap_bytes (sv_io sv), (sv_io sv)\<lparr>cap_bytes := []\<rparr>)"
    by (simp add: take_captured_def)
  let ?ps = "prefixed_new (cap_bytes (sv_io sv)) (cap_stream (sv_io sv))"
  have replay: "contents stream = out @ prefixed_contents contents ps'"
    if "read_all (prefixed_poll_read rd) ms ?ps = (out, ps')" for ms out ps'
    using sniffed_source.replay(2) [OF src sniff taken, of ms out ps'] that by (simp add: into_inner_def)
  have "prefixed_contents contents ?ps = contents stream" using replay [of "[]"] by simp
  moreover have "route_body versions_ok lib net r sv st' =
      ((map_err Proxy_failed (fst (proxy (net_connect net) (net_copy_raw net ?ps) (upstream t) st')), None),
       fst (snd (proxy (net_connect net) (net_copy_raw net ?ps) (upstream t) st')))"
    using assms(4,5) taken by (simp add: route_body_def case_prod_unfold Let_def into_inner_def)
  ultimately show ?thesis using replay unfolding Let_def by blast
qed

text \<open>A network of scripted sockets: three bytes are sniffed, and nothing else answers.\<close>

definition sample_net :: "(unit socket_event list, unit, unit) net" where
  "sample_net =
     \<lparr>net_sniff = (\<lambda>d cs. Client_hello (Some ''app.example'')
        (snd (read_all (capturing_poll_read script_poll_read) [3] cs))),
      net_shutdown = (\<lambda>s. s),
      net_handshake = (\<lambda>_ _ _. Handshake_timeout), net_connect = (\<lambda>_ _ _. Connect_elapsed),
      net_copy_raw = (\<lambda>_ _. Inl ()), net_copy_tls = (\<lambda>_ _ _. Inl ()), net_requests = (\<lambda>_. [])\<rparr>"

lemma sample_net_sniffs: "sniffs_by_reading sample_net script_poll_read"
  unfolding sniffs_by_reading_def
  by (intro allI impI exI [of _ "[3]"]) (simp add: sample_net_def del: read_all.simps)

lemma script_source: "byte_source script_poll_read script_contents"
  by (rule script.byte_source_axioms)

lemma sample_target: "route_target (r_state sample_site_router) (Some ''app.example'') = Some (hd (routes sample_config))"
  by (simp add: sample_site_router_def route_target_def routes_table_def sample_config_def)

lemma sample_route_start:
  "\<exists>sv st'. route_start sample_net sample_site_router now stream st = (Served sv, st') \<and>
     sv_target sv = Some (hd (routes sample_config)) \<and> guard_route (sv_guard sv) = Proxied"
  by (simp add: route_start_def sample_net_def Let_def case_prod_unfold) 
    (simp add: sample_target)

lemma passthrough_replays_witness:
  "\<exists>sv st'. route_start sample_net sample_site_router 0 [Arrives ''hel'', Would_block, Arrives ''lo'']
       (new_stats 0) = (Served sv, st') \<and>
     prefixed_contents script_contents (prefixed_new (cap_bytes (sv_io sv)) (cap_stream (sv_io sv))) = ''hello''"
proof -
  let ?stream = "[Arrives ''hel'', Would_block, Arrives ''lo''] :: unit socket_event list"
  obtain sv st' where start: "route_start sample_net sample_site_router 0 ?stream (new_stats 0) = (Served sv, st')"
    and target: "sv_target sv = Some (hd (routes sample_config))"
    using sample_route_start by blast
  have pt: "tls_passthrough (hd (routes sample_config))" by (simp add: sample_config_def)
  note r = passthrough_replays [OF script_source sample_net_sniffs start target pt,
      where versions_ok = "\<lambda>_. True" and lib = sample_lib, unfolded Let_def]
  have "prefixed_contents script_contents (prefixed_new (cap_bytes (sv_io sv)) (cap_stream (sv_io sv)))
      = script_contents ?stream"
    by (rule r [THEN conjunct2, THEN conjunct1])
  then show ?thesis using start by simp
qed

definition begun :: "stats \<Rightarrow> u64" where
  "begun st = connections_probe_timeout_total st + connections_probe_io_error_total st
     + connections_proxied_total st + connections_fallback_total st"

definition ended :: "stats \<Rightarrow> u64" where
  "ended st = connections_probe_timeout_total st + connections_probe_io_error_total st
     + connections_proxied_completed_total st + connections_fallback_completed_total st"

lemma untouched_counts: "untouched st' = untouched st \<Longrightarrow> begun st' = begun st \<and> ended st' = ended st"
  by (simp add: untouched_def begun_def ended_def)

lemma route_start_counts:
  "route_start net r now stream st = (Closed io, st') \<Longrightarrow> begun st' = begun st + 1 \<and> ended st' = ended st + 1"
  "route_start net r now stream st = (Served sv, st') \<Longrightarrow> begun st' = begun st + 1 \<and> ended st' = ended st"
  by (auto simp: route_start_def Let_def begun_def ended_def begin_proxied_def begin_fallback_def count_sni_def
      split: prod.splits probe_outcome.splits option.splits)

lemma drop_guard_counts: "begun (drop_guard now g st) = begun st" "ended (drop_guard now g st) = ended st + 1"
  by (simp_all add: drop_guard_def begun_def ended_def Let_def split: route_kind.split)

lemma gauges_iff:
  "gauges st' = gauges st \<longleftrightarrow> connections st' = connections st \<and> (\<forall>k. guard_gauge k st' = guard_gauge k st)"
  by (auto simp: gauges_def guard_gauge_def split: route_kind.split)

text \<open>Per route, what was begun is what was completed and what is still active; and the rejections of
  the accept loop.\<close>

definition balanced :: "stats \<Rightarrow> bool" where
  "balanced st \<longleftrightarrow>
     connections_proxied_total st = connections_proxied_completed_total st + active_proxied st \<and>
     connections_fallback_total st = connections_fallback_completed_total st + active_fallback st"

definition rejected :: "stats \<Rightarrow> u64" where
  "rejected st = connections_rejected_rate_limit_total st + connections_rejected_ip_limit_total st"

lemma untouched_balance:
  "untouched st' = untouched st \<Longrightarrow> balanced st' = balanced st \<and> rejected st' = rejected st"
  by (simp add: untouched_defs balanced_def rejected_def)

lemma route_start_balance:
  "route_start net r now stream st = (sv, st') \<Longrightarrow> balanced st' = balanced st \<and> rejected st' = rejected st"
  by (auto simp: route_start_def Let_def balanced_def rejected_def begin_proxied_def begin_fallback_def
      count_sni_def split: probe_outcome.splits option.splits)

lemma drop_guard_balance: "balanced (drop_guard now g st) = balanced st" "rejected (drop_guard now g st) = rejected st"
  by (simp_all add: drop_guard_def balanced_def rejected_def Let_def split: route_kind.split)

text \<open>
  C18: A connection that has been routed leaves every gauge as it found it, on every path, and is
  counted exactly once as begun and once as ended: as a probe that timed out or failed, as
  proxied, or as served by the fallback site.
\<close>

theorem route_balanced:
  "let (res, st') = route versions_ok lib net r t0 t1 stream st in
    gauges st' = gauges st \<and> begun st' = begun st + 1 \<and> ended st' = ended st + 1"
proof (cases "route_start net r t0 stream st")
  case (Pair sv st1)
  show ?thesis
  proof (cases sv)
    case (Closed io)
    then show ?thesis
      using Pair route_start_gauges(1) route_start_counts(1) by (fastforce simp: route_def)
  next
    case (Served v)
    obtain res st2 where body: "route_body versions_ok lib net r v st1 = (res, st2)" by fastforce
    have "untouched st2 = untouched st1"
      using route_body_untouched [of versions_ok lib net r v st1] body by simp
    note frame = this untouched_counts [OF this]
    have "gauges st2 = gauges st1" using frame(1) by (simp add: untouched_def)
    then have "gauges (drop_guard t1 (sv_guard v) st2) = gauges st"
      using route_start_gauges(2) [OF Pair [unfolded Served]] by (simp add: gauges_iff)
    then show ?thesis
      using Pair Served body frame(2) route_start_counts(2) [OF Pair [unfolded Served]]
      by (simp add: route_def drop_guard_counts)
  qed
qed

end
