(* ===== verification/Conn_Limiter.thy ===== *)
theory Conn_Limiter
  imports Stats
begin

text \<open>
  \<open>src/limiter.rs\<close>: the global bound on connections in flight. The tokio semaphore is a parameter,
  a record of its three operations (\<open>Semaphore::new\<close>, taking a permit when one is free, giving
  it back); \<open>semaphore_ok\<close> states what its documentation promises, over a function that counts
  the free permits. The shared \<open>Stats\<close> are passed along explicitly.

  The lemmas show that in every history of requested and finished connections the number of
  slots held is bounded by \<open>max_connections\<close> and equals the \<open>connections\<close> counter.
\<close>

record 'sem semaphore =
  sem_new :: "nat \<Rightarrow> 'sem"
  sem_try :: "'sem \<Rightarrow> 'sem option"
  sem_release :: "'sem \<Rightarrow> 'sem"

text \<open>\<open>Semaphore::MAX_PERMITS\<close>, beyond which tokio panics.\<close>

definition MAX_PERMITS :: nat where
  "MAX_PERMITS = 2 ^ 61 - 1"

definition semaphore_ok :: "'sem semaphore \<Rightarrow> ('sem \<Rightarrow> nat) \<Rightarrow> bool" where
  "semaphore_ok ops permits =
     ((\<forall>n \<le> MAX_PERMITS. permits (sem_new ops n) = n) \<and>
      (\<forall>s. sem_try ops s = None \<longleftrightarrow> permits s = 0) \<and>
      (\<forall>s s'. sem_try ops s = Some s' \<longrightarrow> permits s = Suc (permits s')) \<and>
      (\<forall>s. permits s < MAX_PERMITS \<longrightarrow> permits (sem_release ops s) = Suc (permits s)))"

record 'sem connection_limiter =
  connection_slots :: 'sem
  limiter_stats :: stats

definition connection_limiter_new :: "'sem semaphore \<Rightarrow> usize \<Rightarrow> stats \<Rightarrow> 'sem connection_limiter" where
  "connection_limiter_new ops permits st =
     \<lparr>connection_slots = sem_new ops (unat permits), limiter_stats = st\<rparr>"

definition count_slot :: "stats \<Rightarrow> stats" where
  "count_slot st = st\<lparr>connections := connections st + 1\<rparr>"

definition uncount_slot :: "stats \<Rightarrow> stats" where
  "uncount_slot st = st\<lparr>connections := connections st - 1\<rparr>"

text \<open>\<open>acquire_slot\<close>: \<open>None\<close> while the caller waits for a permit; the counter moves only after the
  permit is there.\<close>

definition acquire_slot ::
  "'sem semaphore \<Rightarrow> 'sem connection_limiter \<Rightarrow> 'sem connection_limiter option" where
  "acquire_slot ops cl =
     (case sem_try ops (connection_slots cl) of
        None \<Rightarrow> None
      | Some sem' \<Rightarrow> Some (cl\<lparr>connection_slots := sem', limiter_stats := count_slot (limiter_stats cl)\<rparr>))"

text \<open>\<open>impl Drop for ConnectionSlot\<close>: first the counter, then the permit field is dropped.\<close>

definition drop_slot :: "'sem semaphore \<Rightarrow> 'sem connection_limiter \<Rightarrow> 'sem connection_limiter" where
  "drop_slot ops cl =
     (let cl' = cl\<lparr>limiter_stats := uncount_slot (limiter_stats cl)\<rparr>
      in cl'\<lparr>connection_slots := sem_release ops (connection_slots cl')\<rparr>)"

interpretation connection_slots: raii_gauge "\<lambda>_::unit. count_slot" "\<lambda>_::unit. uncount_slot" connections
  by unfold_locales (simp_all add: count_slot_def uncount_slot_def)


section \<open>Histories of slots\<close>

text \<open>A history: a request that is granted when a permit is free (and otherwise waits), or the end
  of one of the connections that hold a slot. The second component counts the slots held.\<close>

datatype slot_event = RequestSlot | EndSlot

fun slot_step ::
  "'sem semaphore \<Rightarrow> slot_event \<Rightarrow> 'sem connection_limiter \<times> nat \<Rightarrow> 'sem connection_limiter \<times> nat" where
  "slot_step ops RequestSlot (cl, held) =
     (case acquire_slot ops cl of None \<Rightarrow> (cl, held) | Some cl' \<Rightarrow> (cl', Suc held))"
| "slot_step ops EndSlot (cl, held) =
     (if held = 0 then (cl, held) else (drop_slot ops cl, held - 1))"

definition slot_inv :: "('sem \<Rightarrow> nat) \<Rightarrow> nat \<Rightarrow> 'sem connection_limiter \<times> nat \<Rightarrow> bool" where
  "slot_inv permits n s =
     (n \<le> MAX_PERMITS \<and> permits (connection_slots (fst s)) + snd s = n \<and>
      connections (limiter_stats (fst s)) = of_nat (snd s))"

lemma slot_inv_new:
  "semaphore_ok ops permits \<Longrightarrow> connections st = 0 \<Longrightarrow> unat n \<le> MAX_PERMITS \<Longrightarrow>
   slot_inv permits (unat n) (connection_limiter_new ops n st, 0)"
  by (simp add: slot_inv_def connection_limiter_new_def semaphore_ok_def)

lemma acquire_slot_inv [inv_intros]:
  assumes "semaphore_ok ops permits" and "slot_inv permits n (cl, held)"
    and "acquire_slot ops cl = Some cl'"
  shows "slot_inv permits n (cl', Suc held)"
proof -
  from assms(3) obtain sem' where sem': "sem_try ops (connection_slots cl) = Some sem'"
    and cl': "cl' = cl\<lparr>connection_slots := sem', limiter_stats := count_slot (limiter_stats cl)\<rparr>"
    by (auto simp: acquire_slot_def split: option.splits)
  then have "permits (connection_slots cl) = Suc (permits sem')"
    using assms(1) by (simp add: semaphore_ok_def)
  then show ?thesis
    using assms(2) by (simp add: slot_inv_def cl' connection_slots.level_create add.commute)
qed

lemma drop_slot_inv [inv_intros]:
  assumes "semaphore_ok ops permits" and "slot_inv permits n (cl, Suc held)"
  shows "slot_inv permits n (drop_slot ops cl, held)"
  using assms
  by (simp add: slot_inv_def drop_slot_def Let_def semaphore_ok_def connection_slots.level_release)

lemma slot_step_inv:
  assumes "semaphore_ok ops permits" and "slot_inv permits n s"
  shows "slot_inv permits n (slot_step ops e s)"
proof -
  obtain cl held where s: "s = (cl, held)" by fastforce
  show ?thesis
  proof (cases e)
    case RequestSlot
    then show ?thesis using assms acquire_slot_inv [OF assms(1)]
      by (auto simp: s split: option.splits)
  next
    case EndSlot
    then show ?thesis using assms drop_slot_inv [OF assms(1)]
      by (cases held) (auto simp: s)
  qed
qed

lemma slot_run_inv:
  assumes "semaphore_ok ops permits" and "slot_inv permits n s"
  shows "slot_inv permits n (fold (slot_step ops) es s)"
  using assms(2) by (induction es arbitrary: s) (simp_all add: slot_step_inv [OF assms(1)])

lemma slot_inv_waits:
  assumes "semaphore_ok ops permits" and "slot_inv permits n (cl, held)"
  shows "acquire_slot ops cl = None \<longleftrightarrow> held = n"
  using assms by (auto simp: acquire_slot_def slot_inv_def semaphore_ok_def split: option.splits)

lemma sint_of_nat_small: "n < 2 ^ 63 \<Longrightarrow> sint (of_nat n :: 64 word) = int n"
proof -
  assume "n < 2 ^ 63"
  then have "int n < 2 ^ 63" by (metis of_nat_less_iff of_nat_numeral of_nat_power)
  then show ?thesis by (simp add: signed_of_nat signed_take_bit_int_eq_self)
qed

text \<open>The counting semaphore, for evaluating the definitions.\<close>

definition nat_semaphore :: "nat semaphore" where
  "nat_semaphore =
     \<lparr>sem_new = (\<lambda>n. n), sem_try = (\<lambda>n. if n = 0 then None else Some (n - 1)), sem_release = Suc\<rparr>"

lemma nat_semaphore_ok: "semaphore_ok nat_semaphore (\<lambda>n. n)"
  by (auto simp: semaphore_ok_def nat_semaphore_def split: if_splits)


section \<open>Properties\<close>

text \<open>
  In every history of slots requested and ended, at most \<open>max_connections\<close> are held, the
  \<open>connections\<close> counter and \<open>active_connections\<close> are the number held, and a request waits exactly
  when all are held.
\<close>

lemma slots_history:
  assumes "semaphore_ok ops permits" "connections st = 0" "unat n \<le> MAX_PERMITS"
    and "fold (slot_step ops) es (connection_limiter_new ops n st, 0) = (cl, held)"
  shows "held \<le> unat n \<and> connections (limiter_stats cl) = of_nat held \<and>
    active_connections (limiter_stats cl) = int held \<and> (acquire_slot ops cl = None \<longleftrightarrow> held = unat n)"
proof -
  have inv: "slot_inv permits (unat n) (cl, held)"
    using slot_run_inv [OF assms(1) slot_inv_new [OF assms(1-3)], of es] assms(4) by simp
  then have "held \<le> unat n" "held < 2 ^ 63" using assms(3) by (auto simp: slot_inv_def MAX_PERMITS_def)
  then show ?thesis
    using inv slot_inv_waits [OF assms(1) inv]
    by (simp add: slot_inv_def active_connections_def sint_of_nat_small)
qed

lemma slots_history_witness:
  "snd (fold (slot_step nat_semaphore) [RequestSlot, RequestSlot, RequestSlot, EndSlot]
     (connection_limiter_new nat_semaphore 2 (new_stats 0), 0)) \<le> 2"
proof -
  obtain cl held where r: "fold (slot_step nat_semaphore) [RequestSlot, RequestSlot, RequestSlot, EndSlot]
     (connection_limiter_new nat_semaphore 2 (new_stats 0), 0) = (cl, held)" by (metis surj_pair)
  have "held \<le> unat (2 :: usize)"
    using slots_history [OF nat_semaphore_ok _ _ r] by (simp add: new_stats_def MAX_PERMITS_def)
  then show ?thesis using r by simp
qed

end
