(* ===== verification/Keyed_Limiter.thy ===== *)
theory Keyed_Limiter
  imports Reprox_Prelude
begin

text \<open>
  The contract that the two per-IP limiters (\<open>src/ip_limiter.rs\<close>, \<open>src/rate_limiter.rs\<close>) share:
  what an operation answers and does for a key it concerns depends only on what the limiter holds
  for that key, and an operation changes nothing for a key it does not concern. \<open>view s k\<close> is what
  the state holds for \<open>k\<close>, the limits that all keys share included; an operation on one address
  concerns that address, a sweep or a change of the limits concerns every address.

  The client's lemma is non-interference: in any mixture of operations, the answers one key gets
  are those it would get if the operations that do not concern it had never happened.
\<close>

locale keyed_limiter =
  fixes step :: "'e \<Rightarrow> 's \<Rightarrow> 'o \<times> 's"
    and concerns :: "'e \<Rightarrow> 'k \<Rightarrow> bool"
    and view :: "'s \<Rightarrow> 'k \<Rightarrow> 'v"
  assumes frame: "\<not> concerns e k \<Longrightarrow> view (snd (step e s)) k = view s k"
    and local_out: "concerns e k \<Longrightarrow> view s k = view t k \<Longrightarrow> fst (step e s) = fst (step e t)"
    and local_view: "concerns e k \<Longrightarrow> view s k = view t k \<Longrightarrow>
      view (snd (step e s)) k = view (snd (step e t)) k"
begin

fun run :: "'e list \<Rightarrow> 's \<Rightarrow> ('e \<times> 'o) list" where
  "run [] s = []"
| "run (e # es) s = (e, fst (step e s)) # run es (snd (step e s))"

definition own :: "'k \<Rightarrow> 'e list \<Rightarrow> 'e list" where
  "own k es = filter (\<lambda>e. concerns e k) es"

definition answers :: "'k \<Rightarrow> ('e \<times> 'o) list \<Rightarrow> 'o list" where
  "answers k rs = map snd (filter (\<lambda>r. concerns (fst r) k) rs)"

lemma non_interference:
  "view s k = view t k \<Longrightarrow> answers k (run es s) = map snd (run (own k es) t)"
proof (induction es arbitrary: s t)
  case Nil
  show ?case by (simp add: answers_def own_def)
next
  case (Cons e es)
  show ?case
  proof (cases "concerns e k")
    case True
    note own = this local_out [OF this Cons.prems] local_view [OF this Cons.prems]
    have "answers k (run es (snd (step e s))) = map snd (run (own k es) (snd (step e t)))"
      by (rule Cons.IH [OF own(3)])
    with own(1,2) show ?thesis by (simp add: answers_def own_def)
  next
    case False
    have "answers k (run es (snd (step e s))) = map snd (run (own k es) t)"
      by (rule Cons.IH) (simp add: frame [OF False] Cons.prems)
    with False show ?thesis by (simp add: answers_def own_def)
  qed
qed

lemma alone: "answers k (run es s) = map snd (run (own k es) s)"
  by (rule non_interference) (rule refl)

end

end
