(* ===== verification/Ip_Limiter.thy ===== *)
theory Ip_Limiter
  imports Std_Net Keyed_Limiter
begin

text \<open>
  \<open>src/ip_limiter.rs\<close>: the cap on concurrent connections of one client IP. The state is the map of
  counters behind the mutex and the atomic limit; a slot is the address it was taken for. As in
  the source, a slot taken while the limit is disabled (or by a loopback address) is not counted,
  and its drop still decrements whatever counter the map holds for the address.

  The lemmas follow histories of acquisitions, drops and live limit changes: the counters never
  exceed the slots alive, no entry is zero, and the cap holds in every history in which the limit
  was never disabled. A history that enables the limit live can exceed it, by as many slots as were
  granted while it was disabled and no more.
\<close>

record ip_limiter =
  slots :: "ip_addr \<rightharpoonup> usize"
  max_per_ip :: usize

definition ip_limiter_new :: "usize \<Rightarrow> ip_limiter" where
  "ip_limiter_new n = \<lparr>slots = Map.empty, max_per_ip = n\<rparr>"

text \<open>\<open>try_acquire_slot\<close>: the slot handed out (its address) and the new state. The entry is created
  with 0 before it is compared with the limit.\<close>

definition try_acquire_slot :: "ip_addr \<Rightarrow> ip_limiter \<Rightarrow> ip_addr option \<times> ip_limiter" where
  "try_acquire_slot addr l =
     (if max_per_ip l = 0 \<or> is_loopback addr then (Some addr, l)
      else
        let slots1 = (case slots l addr of None \<Rightarrow> (slots l)(addr \<mapsto> 0) | Some _ \<Rightarrow> slots l);
            slot_count = the (slots1 addr)
        in if max_per_ip l \<le> slot_count then (None, l\<lparr>slots := slots1\<rparr>)
           else (Some addr, l\<lparr>slots := slots1(addr \<mapsto> slot_count + 1)\<rparr>))"

text \<open>\<open>impl Drop for IpSlot\<close>.\<close>

definition drop_ip_slot :: "ip_addr \<Rightarrow> ip_limiter \<Rightarrow> ip_limiter" where
  "drop_ip_slot addr l =
     (case slots l addr of
        None \<Rightarrow> l
      | Some slot \<Rightarrow>
          let slot' = slot - 1; slots1 = (slots l)(addr \<mapsto> slot')
          in if slot' = 0 then l\<lparr>slots := slots1(addr := None)\<rparr> else l\<lparr>slots := slots1\<rparr>)"

definition ip_set_limit :: "usize \<Rightarrow> ip_limiter \<Rightarrow> ip_limiter" where
  "ip_set_limit n l = l\<lparr>max_per_ip := n\<rparr>"

definition ips_count :: "ip_limiter \<Rightarrow> nat" where
  "ips_count l = card (dom (slots l))"


section \<open>One operation\<close>

text \<open>The counter of an address, 0 when it has no entry.\<close>

definition ip_count :: "ip_limiter \<Rightarrow> ip_addr \<Rightarrow> nat" where
  "ip_count l a = (case slots l a of None \<Rightarrow> 0 | Some n \<Rightarrow> unat n)"

lemma try_acquire_exempt:
  "max_per_ip l = 0 \<or> is_loopback addr \<Longrightarrow> try_acquire_slot addr l = (Some addr, l)"
  by (simp add: try_acquire_slot_def)

lemma try_acquire_limited:
  assumes "max_per_ip l \<noteq> 0" and "\<not> is_loopback addr"
  shows "ip_count l addr < unat (max_per_ip l) \<Longrightarrow>
     try_acquire_slot addr l = (Some addr, l\<lparr>slots := (slots l)(addr \<mapsto> of_nat (Suc (ip_count l addr)))\<rparr>)"
    and "unat (max_per_ip l) \<le> ip_count l addr \<Longrightarrow> try_acquire_slot addr l = (None, l)"
  using assms
  by (auto simp: try_acquire_slot_def ip_count_def Let_def word_le_nat_alt unat_eq_0 add.commute
      split: option.splits)

lemma drop_ip_slot_count:
  assumes "slots l a \<noteq> Some 0"
  shows "slots (drop_ip_slot a l) =
    (slots l)(a := if ip_count l a \<le> 1 then None else Some (of_nat (ip_count l a - 1)))"
proof (cases "slots l a")
  case None
  then show ?thesis by (auto simp: drop_ip_slot_def ip_count_def)
next
  case (Some n)
  with assms have "0 < unat n" by (simp add: unat_gt_0)
  then have pred: "n - 1 = of_nat (unat n - 1)" by (simp add: of_nat_diff)
  have one: "n = 1 \<longleftrightarrow> unat n \<le> 1"
    using \<open>0 < unat n\<close> by (auto simp: le_Suc_eq word_unat_eq_iff)
  show ?thesis
  proof (cases "unat n \<le> 1")
    case True
    with one Some show ?thesis by (simp add: drop_ip_slot_def ip_count_def)
  next
    case False
    with one have "n - 1 \<noteq> 0" by simp
    with False Some pred show ?thesis by (simp add: drop_ip_slot_def ip_count_def Let_def del: of_nat_diff)
  qed
qed

lemma drop_ip_slot_limit [simp]: "max_per_ip (drop_ip_slot a l) = max_per_ip l"
  by (simp add: drop_ip_slot_def Let_def split: option.splits)

lemma try_acquire_limit [simp]: "max_per_ip (snd (try_acquire_slot a l)) = max_per_ip l"
  by (simp add: try_acquire_slot_def Let_def)


section \<open>The shared contract\<close>

datatype ip_op = OpAcquire ip_addr | OpDrop ip_addr | OpSetLimit usize

primrec ip_concerns :: "ip_op \<Rightarrow> ip_addr \<Rightarrow> bool" where
  "ip_concerns (OpAcquire a) b = (a = b)"
| "ip_concerns (OpDrop a) b = (a = b)"
| "ip_concerns (OpSetLimit n) b = True"

primrec ip_answer :: "ip_op \<Rightarrow> ip_limiter \<Rightarrow> ip_addr option \<times> ip_limiter" where
  "ip_answer (OpAcquire a) l = try_acquire_slot a l"
| "ip_answer (OpDrop a) l = (None, drop_ip_slot a l)"
| "ip_answer (OpSetLimit n) l = (None, ip_set_limit n l)"

definition ip_view :: "ip_limiter \<Rightarrow> ip_addr \<Rightarrow> usize \<times> usize option" where
  "ip_view l a = (max_per_ip l, slots l a)"

interpretation ip_limits: keyed_limiter ip_answer ip_concerns ip_view
proof
  fix e k s t
  show "\<not> ip_concerns e k \<Longrightarrow> ip_view (snd (ip_answer e s)) k = ip_view s k"
    by (cases e)
      (auto simp: ip_view_def try_acquire_slot_def drop_ip_slot_def Let_def split: option.splits)
  show "ip_concerns e k \<Longrightarrow> ip_view s k = ip_view t k \<Longrightarrow> fst (ip_answer e s) = fst (ip_answer e t)"
    by (cases e) (auto simp: ip_view_def try_acquire_slot_def Let_def split: option.splits)
  show "ip_concerns e k \<Longrightarrow> ip_view s k = ip_view t k \<Longrightarrow>
      ip_view (snd (ip_answer e s)) k = ip_view (snd (ip_answer e t)) k"
    by (cases e)
      (auto simp: ip_view_def try_acquire_slot_def drop_ip_slot_def ip_set_limit_def Let_def
        split: option.splits)
qed


section \<open>Histories\<close>

text \<open>
  A history mixes acquisitions, drops of slots that are alive and live changes of the limit
  (\<open>set_limit\<close> on SIGHUP). \<open>live a\<close> counts the slots of \<open>a\<close> that are alive, counted or not.
\<close>

type_synonym ip_state = "ip_limiter \<times> (ip_addr \<Rightarrow> nat)"

fun ip_op_step :: "ip_op \<Rightarrow> ip_state \<Rightarrow> ip_state" where
  "ip_op_step (OpAcquire a) (l, live) =
     (case try_acquire_slot a l of
        (Some _, l') \<Rightarrow> (l', live(a := Suc (live a)))
      | (None, l') \<Rightarrow> (l', live))"
| "ip_op_step (OpDrop a) (l, live) =
     (if live a = 0 then (l, live) else (drop_ip_slot a l, live(a := live a - 1)))"
| "ip_op_step (OpSetLimit n) (l, live) = (ip_set_limit n l, live)"

definition ip_run :: "ip_op list \<Rightarrow> ip_state \<Rightarrow> ip_state" where
  "ip_run ops s = fold ip_op_step ops s"

definition ip_inv :: "ip_state \<Rightarrow> bool" where
  "ip_inv s =
     (case s of (l, live) \<Rightarrow>
        finite (dom (slots l)) \<and>
        (\<forall>a. slots l a \<noteq> Some 0 \<and> ip_count l a \<le> live a \<and> (is_loopback a \<longrightarrow> slots l a = None)))"

lemma ip_count_upd:
  "slots l' = (slots l)(a := v) \<Longrightarrow>
   ip_count l' b = (if b = a then (case v of None \<Rightarrow> 0 | Some n \<Rightarrow> unat n) else ip_count l b)"
  by (simp add: ip_count_def)

lemma ip_count_bound: "ip_count l a < 2 ^ 64"
  using unat_u64_less by (auto simp: ip_count_def simp del: One_nat_def split: option.splits)

text \<open>A granted, counted acquisition adds one to the counter of its address.\<close>

lemma try_acquire_granted:
  assumes "max_per_ip l \<noteq> 0" "\<not> is_loopback a" "ip_count l a < unat (max_per_ip l)"
  obtains l' where "try_acquire_slot a l = (Some a, l')"
    "slots l' = (slots l)(a \<mapsto> of_nat (Suc (ip_count l a)))" "max_per_ip l' = max_per_ip l"
    "\<forall>b. ip_count l' b = (if b = a then Suc (ip_count l a) else ip_count l b)"
    "(of_nat (Suc (ip_count l a)) :: usize) \<noteq> 0"
proof
  let ?l' = "l\<lparr>slots := (slots l)(a \<mapsto> of_nat (Suc (ip_count l a)))\<rparr>"
  have "Suc (ip_count l a) < 2 ^ 64"
    using assms(3) unat_u64_less [of "max_per_ip l"] by linarith
  then have u: "unat (of_nat (Suc (ip_count l a)) :: usize) = Suc (ip_count l a)"
    by (rule unat_of_nat_u64)
  show "try_acquire_slot a l = (Some a, ?l')" by (rule try_acquire_limited(1) [OF assms])
  show "\<forall>b. ip_count ?l' b = (if b = a then Suc (ip_count l a) else ip_count l b)"
    using u by (simp add: ip_count_def)
  show "(of_nat (Suc (ip_count l a)) :: usize) \<noteq> 0"
    using u by (metis unat_eq_0 nat.distinct(1))
qed simp_all

lemma drop_ip_slot_counts:
  assumes "slots l a \<noteq> Some 0"
  shows "ip_count (drop_ip_slot a l) b = (if b = a then ip_count l a - 1 else ip_count l b)"
    and "slots (drop_ip_slot a l) a \<noteq> Some 0"
proof -
  have u: "unat (of_nat (ip_count l a - 1) :: usize) = ip_count l a - 1"
    using ip_count_bound [of l a] by (intro unat_of_nat_u64) simp
  then show "ip_count (drop_ip_slot a l) b = (if b = a then ip_count l a - 1 else ip_count l b)"
    using drop_ip_slot_count [OF assms] by (simp add: ip_count_def split: if_splits)
  show "slots (drop_ip_slot a l) a \<noteq> Some 0"
    using drop_ip_slot_count [OF assms] u by (auto simp: unat_eq_0 [symmetric])
qed

lemma acquire_cases:
  obtains (exempt) "max_per_ip l = 0 \<or> is_loopback a" "try_acquire_slot a l = (Some a, l)"
  | (rejected) "max_per_ip l \<noteq> 0" "\<not> is_loopback a" "unat (max_per_ip l) \<le> ip_count l a"
      "try_acquire_slot a l = (None, l)"
  | (granted) "max_per_ip l \<noteq> 0" "\<not> is_loopback a" "ip_count l a < unat (max_per_ip l)"
  using try_acquire_exempt [of l a] try_acquire_limited(2) [of l a]
  by (cases "max_per_ip l = 0 \<or> is_loopback a"; cases "ip_count l a < unat (max_per_ip l)") auto

lemma ip_inv_new: "ip_inv (ip_limiter_new n, \<lambda>_. 0)"
  by (simp add: ip_inv_def ip_limiter_new_def ip_count_def)

lemma ip_inv_step: "ip_inv s \<Longrightarrow> ip_inv (ip_op_step e s)"
proof -
  assume inv: "ip_inv s"
  obtain l live where s: "s = (l, live)" by fastforce
  show ?thesis
  proof (cases e)
    case (OpAcquire a)
    show ?thesis
    proof (rule acquire_cases [of l a], goal_cases exempt rejected granted)
      case exempt
      with inv show ?thesis by (auto simp: s OpAcquire ip_inv_def le_SucI)
    next
      case rejected
      with inv show ?thesis by (simp add: s OpAcquire)
    next
      case granted
      then obtain l' where "try_acquire_slot a l = (Some a, l')"
        "slots l' = (slots l)(a \<mapsto> of_nat (Suc (ip_count l a)))" "max_per_ip l' = max_per_ip l"
        "\<forall>b. ip_count l' b = (if b = a then Suc (ip_count l a) else ip_count l b)"
        "(of_nat (Suc (ip_count l a)) :: usize) \<noteq> 0"
        by (rule try_acquire_granted)
      with inv granted show ?thesis by (simp add: s OpAcquire ip_inv_def del: of_nat_Suc)
    qed
  next
    case (OpDrop a)
    have "slots l a \<noteq> Some 0" using inv by (simp add: s ip_inv_def)
    note d = drop_ip_slot_counts [OF this] drop_ip_slot_count [OF this]
    show ?thesis
    proof (cases "live a = 0")
      case True
      with inv show ?thesis by (simp add: s OpDrop)
    next
      case False
      with inv d show ?thesis
        by (auto simp: s OpDrop ip_inv_def diff_le_mono ip_count_def [of l]
            split: option.splits if_splits)
    qed
  next
    case (OpSetLimit n)
    with inv show ?thesis by (simp add: s ip_inv_def ip_set_limit_def ip_count_def)
  qed
qed

lemma ip_inv_run: "ip_inv s \<Longrightarrow> ip_inv (ip_run ops s)"
  unfolding ip_run_def by (induction ops arbitrary: s) (simp_all add: ip_inv_step)


subsection \<open>Histories in which the limit is never disabled\<close>

definition limits_in :: "nat \<Rightarrow> ip_op list \<Rightarrow> bool" where
  "limits_in m ops = (\<forall>n. OpSetLimit n \<in> set ops \<longrightarrow> n \<noteq> 0 \<and> unat n \<le> m)"

definition ip_exact :: "nat \<Rightarrow> ip_state \<Rightarrow> bool" where
  "ip_exact m s =
     (case s of (l, live) \<Rightarrow>
        max_per_ip l \<noteq> 0 \<and> unat (max_per_ip l) \<le> m \<and>
        (\<forall>a. \<not> is_loopback a \<longrightarrow> live a = ip_count l a \<and> ip_count l a \<le> m))"

lemma ip_exact_step:
  assumes inv: "ip_inv s" and ex: "ip_exact m s" and ops: "limits_in m [e]"
  shows "ip_exact m (ip_op_step e s)"
proof -
  obtain l live where s: "s = (l, live)" by fastforce
  show ?thesis
  proof (cases e)
    case (OpAcquire a)
    show ?thesis
    proof (rule acquire_cases [of l a], goal_cases exempt rejected granted)
      case exempt
      with ex show ?case by (auto simp: s OpAcquire ip_exact_def)
    next
      case rejected
      with ex show ?case by (simp add: s OpAcquire)
    next
      case granted
      then obtain l' where "try_acquire_slot a l = (Some a, l')"
        "slots l' = (slots l)(a \<mapsto> of_nat (Suc (ip_count l a)))" "max_per_ip l' = max_per_ip l"
        "\<forall>b. ip_count l' b = (if b = a then Suc (ip_count l a) else ip_count l b)"
        "(of_nat (Suc (ip_count l a)) :: usize) \<noteq> 0"
        by (rule try_acquire_granted)
      with ex granted show ?case by (auto simp: s OpAcquire ip_exact_def)
    qed
  next
    case (OpDrop a)
    have "slots l a \<noteq> Some 0" using inv by (simp add: s ip_inv_def)
    with ex show ?thesis
      by (auto simp: s OpDrop ip_exact_def drop_ip_slot_counts diff_le_mono le_diff_conv)
  next
    case (OpSetLimit n)
    with ex ops show ?thesis
      by (simp add: s ip_exact_def ip_set_limit_def ip_count_def limits_in_def)
  qed
qed

lemma ip_exact_run:
  "ip_inv s \<Longrightarrow> ip_exact m s \<Longrightarrow> limits_in m ops \<Longrightarrow> ip_exact m (ip_run ops s)"
proof (induction ops arbitrary: s)
  case Nil
  then show ?case by (simp add: ip_run_def)
next
  case (Cons e ops)
  have "limits_in m [e]" "limits_in m ops" using Cons.prems(3) by (auto simp: limits_in_def)
  with Cons show ?case by (simp add: ip_run_def ip_inv_step ip_exact_step)
qed

lemma ip_exact_new: "n \<noteq> 0 \<Longrightarrow> unat n \<le> m \<Longrightarrow> ip_exact m (ip_limiter_new n, \<lambda>_. 0)"
  by (simp add: ip_exact_def ip_limiter_new_def ip_count_def)


subsection \<open>Histories that enable the limit\<close>

text \<open>
  The slots of \<open>a\<close> granted while the limit is disabled, which no counter holds.
\<close>

primrec free_grants :: "ip_addr \<Rightarrow> ip_op list \<Rightarrow> ip_state \<Rightarrow> nat" where
  "free_grants a [] s = 0"
| "free_grants a (e # ops) s =
     (if e = OpAcquire a \<and> max_per_ip (fst s) = 0 then 1 else 0) + free_grants a ops (ip_op_step e s)"

definition limits_below :: "nat \<Rightarrow> ip_op list \<Rightarrow> bool" where
  "limits_below m ops = (\<forall>n. OpSetLimit n \<in> set ops \<longrightarrow> unat n \<le> m)"

definition ip_within :: "nat \<Rightarrow> nat \<Rightarrow> ip_addr \<Rightarrow> ip_state \<Rightarrow> bool" where
  "ip_within m u a s =
     (case s of (l, live) \<Rightarrow>
        unat (max_per_ip l) \<le> m \<and> ip_count l a \<le> m \<and> live a \<le> ip_count l a + u)"

lemma ip_within_step:
  assumes inv: "ip_inv s" and w: "ip_within m u a s" and ops: "limits_below m [e]" and a: "\<not> is_loopback a"
  shows "ip_within m (u + (if e = OpAcquire a \<and> max_per_ip (fst s) = 0 then 1 else 0)) a (ip_op_step e s)"
proof -
  obtain l live where s: "s = (l, live)" by fastforce
  show ?thesis
  proof (cases e)
    case (OpAcquire b)
    show ?thesis
    proof (rule acquire_cases [of l b], goal_cases exempt rejected granted)
      case exempt
      with w a show ?case by (auto simp: s OpAcquire ip_within_def)
    next
      case rejected
      with w show ?case by (auto simp: s OpAcquire ip_within_def)
    next
      case granted
      then obtain l' where "try_acquire_slot b l = (Some b, l')"
        "slots l' = (slots l)(b \<mapsto> of_nat (Suc (ip_count l b)))" "max_per_ip l' = max_per_ip l"
        "\<forall>c. ip_count l' c = (if c = b then Suc (ip_count l b) else ip_count l c)"
        "(of_nat (Suc (ip_count l b)) :: usize) \<noteq> 0"
        by (rule try_acquire_granted)
      with w granted show ?case by (auto simp: s OpAcquire ip_within_def)
    qed
  next
    case (OpDrop b)
    have "slots l b \<noteq> Some 0" using inv by (simp add: s ip_inv_def)
    with w show ?thesis
      by (auto simp: s OpDrop ip_within_def drop_ip_slot_counts)
  next
    case (OpSetLimit n)
    with w ops show ?thesis
      by (auto simp: s ip_within_def ip_set_limit_def ip_count_def limits_below_def)
  qed
qed

lemma ip_within_run:
  "ip_inv s \<Longrightarrow> ip_within m u a s \<Longrightarrow> limits_below m ops \<Longrightarrow> \<not> is_loopback a \<Longrightarrow>
    ip_within m (u + free_grants a ops s) a (ip_run ops s)"
proof (induction ops arbitrary: s u)
  case Nil
  then show ?case by (simp add: ip_run_def)
next
  case (Cons e ops)
  have "limits_below m [e]" "limits_below m ops" using Cons.prems(3) by (auto simp: limits_below_def)
  with Cons.IH [OF ip_inv_step [OF Cons.prems(1)] ip_within_step [OF Cons.prems(1,2) _ Cons.prems(4)]] Cons.prems(4)
  show ?case by (simp add: ip_run_def add.assoc)
qed

text \<open>A history that ends above the cap.\<close>

definition overshoot :: "ip_addr \<Rightarrow> nat \<Rightarrow> usize \<Rightarrow> ip_op list" where
  "overshoot a k n =
     replicate k (OpAcquire a) @ OpSetLimit n # replicate (unat n) (OpAcquire a) @
     concat (replicate k [OpDrop a, OpAcquire a])"

lemma ip_run_append: "ip_run (xs @ ys) s = ip_run ys (ip_run xs s)"
  by (simp add: ip_run_def)

lemma free_grants_append:
  "free_grants a (xs @ ys) s = free_grants a xs s + free_grants a ys (ip_run xs s)"
  by (induction xs arbitrary: s) (simp_all add: ip_run_def)

lemma free_grants_limited:
  "max_per_ip (fst s) \<noteq> 0 \<Longrightarrow> (\<forall>n. OpSetLimit n \<notin> set ops) \<Longrightarrow> free_grants a ops s = 0"
proof (induction ops arbitrary: s)
  case (Cons e ops)
  obtain l live where s: "s = (l, live)" by fastforce
  have "max_per_ip (fst (ip_op_step e s)) = max_per_ip l"
  proof (cases e)
    case (OpAcquire b)
    then show ?thesis
      using try_acquire_limit [of b l] by (cases "try_acquire_slot b l") (auto simp: s split: option.splits)
  qed (use Cons.prems(2) in \<open>auto simp: s\<close>)
  with Cons show ?case by (simp add: s)
qed simp

text \<open>Acquisitions under the disabled limit are granted and not counted.\<close>

lemma ip_run_free:
  "max_per_ip l = 0 \<Longrightarrow>
    ip_run (replicate k (OpAcquire a)) (l, live) = (l, live(a := live a + k)) \<and>
    free_grants a (replicate k (OpAcquire a)) (l, live) = k"
  by (induction k arbitrary: live) (simp_all add: ip_run_def try_acquire_exempt)

definition limited_state :: "ip_addr \<Rightarrow> nat \<Rightarrow> nat \<Rightarrow> usize \<Rightarrow> ip_state \<Rightarrow> bool" where
  "limited_state a c v n s =
     (case s of (l, live) \<Rightarrow> max_per_ip l = n \<and> ip_count l a = c \<and> live a = v \<and> slots l a \<noteq> Some 0)"

lemma limited_acquire:
  assumes "limited_state a c v n s" "c < unat n" "\<not> is_loopback a"
  shows "limited_state a (Suc c) (Suc v) n (ip_op_step (OpAcquire a) s)"
proof -
  obtain l live where s: "s = (l, live)" by fastforce
  have "max_per_ip l \<noteq> 0" "ip_count l a < unat (max_per_ip l)"
    using assms(1,2) by (auto simp: s limited_state_def)
  from try_acquire_granted [OF this(1) assms(3) this(2)] obtain l' where
    "try_acquire_slot a l = (Some a, l')"
    "slots l' = (slots l)(a \<mapsto> of_nat (Suc (ip_count l a)))" "max_per_ip l' = max_per_ip l"
    "\<forall>b. ip_count l' b = (if b = a then Suc (ip_count l a) else ip_count l b)"
    "(of_nat (Suc (ip_count l a)) :: usize) \<noteq> 0" by blast
  with assms(1) show ?thesis by (simp add: s limited_state_def)
qed

lemma limited_drop:
  assumes "limited_state a c v n s" "0 < v"
  shows "limited_state a (c - 1) (v - 1) n (ip_op_step (OpDrop a) s)"
  using assms by (cases s) (auto simp: limited_state_def drop_ip_slot_counts)

lemma limited_acquires:
  "limited_state a c v n s \<Longrightarrow> c + j \<le> unat n \<Longrightarrow> \<not> is_loopback a \<Longrightarrow>
    limited_state a (c + j) (v + j) n (ip_run (replicate j (OpAcquire a)) s)"
proof (induction j arbitrary: c v s)
  case (Suc j)
  have "limited_state a (Suc c) (Suc v) n (ip_op_step (OpAcquire a) s)"
    using Suc.prems by (intro limited_acquire) auto
  from Suc.IH [OF this] Suc.prems(2,3) show ?case by (simp add: ip_run_def)
qed (simp add: ip_run_def)

lemma limited_churn:
  "limited_state a (unat n) v n s \<Longrightarrow> n \<noteq> 0 \<Longrightarrow> 0 < v \<Longrightarrow> \<not> is_loopback a \<Longrightarrow>
    limited_state a (unat n) v n (ip_run (concat (replicate k [OpDrop a, OpAcquire a])) s)"
proof (induction k arbitrary: s)
  case (Suc k)
  have n: "0 < unat n" using Suc.prems(2) by (simp add: unat_gt_0)
  have "limited_state a (Suc (unat n - 1)) (Suc (v - 1)) n
      (ip_op_step (OpAcquire a) (ip_op_step (OpDrop a) s))"
    using Suc.prems n by (intro limited_acquire limited_drop) auto
  with Suc.IH Suc.prems(2-4) n show ?case by (simp add: ip_run_def)
qed (simp add: ip_run_def)
lemma overshoot_run:
  assumes "n \<noteq> 0" "\<not> is_loopback a"
  shows "limited_state a (unat n) (unat n + k) n (ip_run (overshoot a k n) (ip_limiter_new 0, \<lambda>_. 0))"
    and "free_grants a (overshoot a k n) (ip_limiter_new 0, \<lambda>_. 0) = k"
proof -
  let ?s1 = "(ip_limiter_new 0, (\<lambda>_. 0)(a := k)) :: ip_state"
  let ?s2 = "ip_op_step (OpSetLimit n) ?s1"
  have free: "ip_run (replicate k (OpAcquire a)) (ip_limiter_new 0, \<lambda>_. 0) = ?s1"
    "free_grants a (replicate k (OpAcquire a)) (ip_limiter_new 0, \<lambda>_. 0) = k"
    using ip_run_free [of "ip_limiter_new 0" k a "\<lambda>_. 0"] by (simp_all add: ip_limiter_new_def)
  have "limited_state a 0 k n ?s2"
    by (simp add: limited_state_def ip_set_limit_def ip_limiter_new_def ip_count_def)
  from limited_acquires [OF this, of "unat n"] assms(2)
  have "limited_state a (unat n) (unat n + k) n (ip_run (replicate (unat n) (OpAcquire a)) ?s2)"
    by (simp add: add.commute)
  from limited_churn [OF this assms(1) _ assms(2)] assms(1)
  show "limited_state a (unat n) (unat n + k) n (ip_run (overshoot a k n) (ip_limiter_new 0, \<lambda>_. 0))"
    by (simp add: overshoot_def ip_run_append free unat_gt_0) (simp add: ip_run_def)
  have "free_grants a (replicate (unat n) (OpAcquire a) @ concat (replicate k [OpDrop a, OpAcquire a])) ?s2 = 0"
    by (rule free_grants_limited) (auto simp: ip_set_limit_def assms(1))
  then show "free_grants a (overshoot a k n) (ip_limiter_new 0, \<lambda>_. 0) = k"
    by (simp add: overshoot_def free_grants_append free)
qed


section \<open>Properties\<close>

text \<open>An address that is not a loopback address.\<close>

definition sample_client :: ip_addr where
  "sample_client = V4 203 0 113 1"

lemma sample_client_ok [simp]: "\<not> is_loopback sample_client"
  by (simp add: sample_client_def)

text \<open>
  As long as the limit is never disabled and never above \<open>m\<close>, no history of acquisitions, drops
  and live changes of the limit lets a non-loopback address hold more than \<open>m\<close> slots, and its
  counter is exact.
\<close>

lemma ip_cap:
  assumes "n \<noteq> 0" "unat n \<le> m" "limits_in m ops" "\<not> is_loopback a"
    and "ip_run ops (ip_limiter_new n, \<lambda>_. 0) = (l, live)"
  shows "live a \<le> m \<and> ip_count l a = live a"
  using ip_exact_run [OF ip_inv_new ip_exact_new [OF assms(1,2)] assms(3)] assms(4,5)
  by (simp add: ip_exact_def)

text \<open>
  C28: Across live changes of the limit, an address that is not a loopback address holds at most as
  many slots as its counter shows plus those it was granted while the limit was disabled, and the
  counter is at most the largest limit set. The bound is reached, so the cap itself does not
  survive enabling the limit: for every limit \<open>n\<close> and every \<open>k\<close>, an address that took \<open>k\<close> slots while
  the limit was disabled, then \<open>n\<close> under the limit, and \<open>k\<close> times drops one and takes another,
  ends up with \<open>n + k\<close> slots and a counter of \<open>n\<close>.
\<close>

theorem ip_cap_across_enabling:
  assumes "unat n0 \<le> m" "limits_below m ops" "\<not> is_loopback a"
    and "ip_run ops (ip_limiter_new n0, \<lambda>_. 0) = (l, live)"
  shows "ip_count l a \<le> m \<and> ip_count l a \<le> live a \<and>
    live a \<le> ip_count l a + free_grants a ops (ip_limiter_new n0, \<lambda>_. 0) \<and>
    (\<forall>n k. n \<noteq> 0 \<longrightarrow>
      (case ip_run (overshoot a k n) (ip_limiter_new 0, \<lambda>_. 0) of
         (l', live') \<Rightarrow> max_per_ip l' = n \<and> ip_count l' a = unat n \<and> live' a = unat n + k) \<and>
      free_grants a (overshoot a k n) (ip_limiter_new 0, \<lambda>_. 0) = k)"
proof -
  have inv: "ip_inv (l, live)" using ip_inv_run [OF ip_inv_new, of ops n0] assms(4) by simp
  have "ip_within m 0 a (ip_limiter_new n0, \<lambda>_. 0)"
    using assms(1) by (simp add: ip_within_def ip_limiter_new_def ip_count_def)
  from ip_within_run [OF ip_inv_new this assms(2,3)] inv overshoot_run [OF _ assms(3)]
  show ?thesis
    unfolding assms(4) by (simp add: ip_within_def ip_inv_def limited_state_def case_prod_beta)
qed

lemma ip_cap_across_enabling_witness:
  "\<exists>l live. ip_run (overshoot sample_client 1 1) (ip_limiter_new 0, \<lambda>_. 0) = (l, live) \<and>
    max_per_ip l = 1 \<and> live sample_client = 2 \<and> ip_count l sample_client = 1"
proof -
  obtain l live where run: "ip_run (overshoot sample_client 1 1) (ip_limiter_new 0, \<lambda>_. 0) = (l, live)"
    by fastforce
  have "limits_below 1 (overshoot sample_client 1 1)"
    by (auto simp: limits_below_def overshoot_def)
  from ip_cap_across_enabling [OF _ this sample_client_ok run]
  have "\<forall>n k. n \<noteq> 0 \<longrightarrow>
      (case ip_run (overshoot sample_client k n) (ip_limiter_new 0, \<lambda>_. 0) of
         (l', live') \<Rightarrow> max_per_ip l' = n \<and> ip_count l' sample_client = unat n \<and> live' sample_client = unat n + k)"
    by simp
  from this [rule_format, of 1 1] run show ?thesis by simp
qed

text \<open>
  C29: No history of acquisitions, drops and live limit changes locks an address out or leaves
  memory behind: the map holds only non-loopback addresses with slots alive, an address without
  slots is granted its next one, and an acquisition is refused only for a limited, non-loopback
  address that holds at least as many slots as the limit allows, leaving the limiter as it was.
\<close>

theorem ip_refusal:
  assumes "ip_run ops (ip_limiter_new n, \<lambda>_. 0) = (l, live)"
  shows "dom (slots l) \<subseteq> {b. 0 < live b \<and> \<not> is_loopback b} \<and>
    (live a = 0 \<longrightarrow> slots l a = None \<and> fst (try_acquire_slot a l) = Some a) \<and>
    (fst (try_acquire_slot a l) = None \<longrightarrow>
      max_per_ip l \<noteq> 0 \<and> \<not> is_loopback a \<and> unat (max_per_ip l) \<le> live a \<and> snd (try_acquire_slot a l) = l)"
proof -
  have inv: "ip_inv (l, live)" using ip_inv_run [OF ip_inv_new, of ops n] assms by simp
  have held: "0 < live b \<and> \<not> is_loopback b" if "slots l b = Some c" for b c
    using inv that unat_gt_0 [of c] by (force simp: ip_inv_def ip_count_def split: option.splits)
  have refused: "fst (try_acquire_slot a l) = None \<longrightarrow>
      max_per_ip l \<noteq> 0 \<and> \<not> is_loopback a \<and> unat (max_per_ip l) \<le> live a \<and> snd (try_acquire_slot a l) = l"
  proof (rule acquire_cases [of l a], goal_cases exempt rejected granted)
    case rejected
    have "ip_count l a \<le> live a" using inv by (simp add: ip_inv_def)
    with rejected show ?case by simp
  next
    case granted
    then show ?case using try_acquire_limited(1) [OF granted] by simp
  qed simp
  have "fst (try_acquire_slot a l) \<in> {None, Some a}" by (simp add: try_acquire_slot_def Let_def)
  moreover have "live a = 0 \<longrightarrow> fst (try_acquire_slot a l) \<noteq> None"
    using refused unat_gt_0 [of "max_per_ip l"] by auto
  ultimately show ?thesis using refused held by (cases "slots l a") auto
qed

lemma ip_refusal_witness:
  "\<exists>l live. ip_run [OpAcquire sample_client] (ip_limiter_new 1, \<lambda>_. 0) = (l, live) \<and>
    fst (try_acquire_slot sample_client l) = None \<and> 1 \<le> live sample_client"
proof -
  obtain l live where run: "ip_run [OpAcquire sample_client] (ip_limiter_new 1, \<lambda>_. 0) = (l, live)"
    by fastforce
  then have "fst (try_acquire_slot sample_client l) = None" "max_per_ip l = 1"
    by (auto simp: ip_run_def ip_limiter_new_def try_acquire_slot_def)
  with run ip_refusal [OF run, of sample_client] show ?thesis by auto
qed

end
