(* ===== verification/Rate_Limiter.thy ===== *)
theory Rate_Limiter
  imports Std_Time Std_Net Keyed_Limiter
begin

text \<open>
  \<open>src/rate_limiter.rs\<close>: the token bucket per client IP, in binary64 arithmetic with every rounding
  of the source. The clock is an argument: \<open>now\<close> is the \<open>Instant::now()\<close> of the call. The refill
  rate is stored by the source as the bits of an \<open>f64\<close>, which is the value itself here.

  The lemmas show that the tokens of a bucket stay between 0 and the capacity, that a bucket
  which the janitor removes is indistinguishable from a fresh one from then on (so any pattern of
  sweeps leaves every decision unchanged), what a burst at one instant gets, and that waiting
  long enough earns a token.
\<close>

record bucket =
  tokens :: f64
  last_refill :: instant

record rate_limiter =
  buckets :: "ip_addr \<rightharpoonup> bucket"
  capacity :: u64
  refill_per_sec :: f64

definition rate_limiter_new :: "f64 \<Rightarrow> u64 \<Rightarrow> rate_limiter" where
  "rate_limiter_new rate_per_sec burst =
     \<lparr>buckets = Map.empty, capacity = burst, refill_per_sec = rate_per_sec\<rparr>"

text \<open>\<open>set_limit\<close> stores the burst and then the rate; the two stores are visible one by one.\<close>

definition store_capacity :: "u64 \<Rightarrow> rate_limiter \<Rightarrow> rate_limiter" where
  "store_capacity burst rl = rl\<lparr>capacity := burst\<rparr>"

definition store_rate :: "f64 \<Rightarrow> rate_limiter \<Rightarrow> rate_limiter" where
  "store_rate rate_per_sec rl = rl\<lparr>refill_per_sec := rate_per_sec\<rparr>"

definition rate_set_limit :: "f64 \<Rightarrow> u64 \<Rightarrow> rate_limiter \<Rightarrow> rate_limiter" where
  "rate_set_limit rate_per_sec burst rl = store_rate rate_per_sec (store_capacity burst rl)"

lemma rate_set_limit_fields [simp]:
  "capacity (rate_set_limit r n rl) = n" "refill_per_sec (rate_set_limit r n rl) = r"
  "buckets (rate_set_limit r n rl) = buckets rl"
  by (simp_all add: rate_set_limit_def store_rate_def store_capacity_def)

lemma store_fields [simp]:
  "capacity (store_capacity n rl) = n" "refill_per_sec (store_capacity n rl) = refill_per_sec rl"
  "buckets (store_capacity n rl) = buckets rl"
  "capacity (store_rate r rl) = capacity rl" "refill_per_sec (store_rate r rl) = r"
  "buckets (store_rate r rl) = buckets rl"
  by (simp_all add: store_rate_def store_capacity_def)

text \<open>\<open>capacity.load() as f64\<close>.\<close>

definition cap_f64 :: "rate_limiter \<Rightarrow> f64" where
  "cap_f64 rl = f64_of_nat (unat (capacity rl))"

text \<open>The lazily refilled contents of a bucket: the expression that \<open>allow\<close> and \<open>sweep\<close> share.\<close>

definition refilled :: "rate_limiter \<Rightarrow> instant \<Rightarrow> bucket \<Rightarrow> f64" where
  "refilled rl now b =
     (let elapsed = as_secs_f64 (saturating_duration_since now (last_refill b))
      in f64_min (f64_add (tokens b) (f64_mul elapsed (refill_per_sec rl))) (cap_f64 rl))"

definition bucket_or_new :: "rate_limiter \<Rightarrow> instant \<Rightarrow> ip_addr \<Rightarrow> bucket" where
  "bucket_or_new rl now ip =
     (case buckets rl ip of
        Some b \<Rightarrow> b
      | None \<Rightarrow> \<lparr>tokens = cap_f64 rl, last_refill = now\<rparr>)"

definition allow :: "instant \<Rightarrow> ip_addr \<Rightarrow> rate_limiter \<Rightarrow> bool \<times> rate_limiter" where
  "allow now ip rl =
     (if f64_le (refill_per_sec rl) (Fin 0) \<or> is_loopback ip then (True, rl)
      else
        let b = bucket_or_new rl now ip; t = refilled rl now b
        in if f64_le (Fin 1) t
           then (True, rl\<lparr>buckets := (buckets rl)(ip \<mapsto> \<lparr>tokens = f64_sub t (Fin 1), last_refill = now\<rparr>)\<rparr>)
           else (False, rl\<lparr>buckets := (buckets rl)(ip \<mapsto> \<lparr>tokens = t, last_refill = now\<rparr>)\<rparr>))"

definition sweep :: "instant \<Rightarrow> rate_limiter \<Rightarrow> rate_limiter" where
  "sweep now rl =
     rl\<lparr>buckets := map_retain (\<lambda>b. f64_less (refilled rl now b) (cap_f64 rl)) (buckets rl)\<rparr>"

definition rate_ips_count :: "rate_limiter \<Rightarrow> nat" where
  "rate_ips_count rl = card (dom (buckets rl))"


section \<open>The shared contract\<close>

definition rate_view :: "rate_limiter \<Rightarrow> ip_addr \<Rightarrow> bucket option \<times> u64 \<times> f64" where
  "rate_view rl ip = (buckets rl ip, capacity rl, refill_per_sec rl)"

lemma allow_config [simp]:
  "capacity (snd (allow now ip rl)) = capacity rl"
  "refill_per_sec (snd (allow now ip rl)) = refill_per_sec rl"
  by (simp_all add: allow_def Let_def)

lemma allow_other: "ip' \<noteq> ip \<Longrightarrow> buckets (snd (allow now ip rl)) ip' = buckets rl ip'"
  by (simp add: allow_def Let_def)

lemma allow_same_view:
  assumes "rate_view s ip = rate_view t ip"
  shows "fst (allow now ip s) = fst (allow now ip t)"
    and "buckets (snd (allow now ip s)) ip = buckets (snd (allow now ip t)) ip"
proof -
  from assms have eq: "buckets s ip = buckets t ip" "refill_per_sec s = refill_per_sec t"
    and cap: "cap_f64 s = cap_f64 t" by (simp_all add: rate_view_def cap_f64_def)
  then have "bucket_or_new s now ip = bucket_or_new t now ip"
    "refilled s now = refilled t now"
    by (simp_all add: bucket_or_new_def refilled_def fun_eq_iff split: option.split)
  with eq show "fst (allow now ip s) = fst (allow now ip t)"
    and "buckets (snd (allow now ip s)) ip = buckets (snd (allow now ip t)) ip"
    by (simp_all add: allow_def Let_def)
qed

datatype rate_op = Op_allow instant ip_addr | Op_sweep instant | Op_store_capacity u64 | Op_store_rate f64

primrec rate_concerns :: "rate_op \<Rightarrow> ip_addr \<Rightarrow> bool" where
  "rate_concerns (Op_allow now a) ip = (a = ip)"
| "rate_concerns (Op_sweep now) ip = True"
| "rate_concerns (Op_store_capacity n) ip = True"
| "rate_concerns (Op_store_rate r) ip = True"

primrec rate_answer :: "rate_op \<Rightarrow> rate_limiter \<Rightarrow> bool option \<times> rate_limiter" where
  "rate_answer (Op_allow now a) rl = (map_prod Some id (allow now a rl))"
| "rate_answer (Op_sweep now) rl = (None, sweep now rl)"
| "rate_answer (Op_store_capacity n) rl = (None, store_capacity n rl)"
| "rate_answer (Op_store_rate r) rl = (None, store_rate r rl)"

lemma sweep_same_view:
  assumes "rate_view s ip = rate_view t ip"
  shows "rate_view (sweep now s) ip = rate_view (sweep now t) ip"
proof -
  from assms have "cap_f64 s = cap_f64 t" by (simp add: rate_view_def cap_f64_def)
  with assms have "refilled s now = refilled t now"
    by (simp add: rate_view_def refilled_def fun_eq_iff)
  with assms \<open>cap_f64 s = cap_f64 t\<close> show ?thesis
    by (simp add: rate_view_def sweep_def map_retain_def)
qed

interpretation rate_limits: keyed_limiter rate_answer rate_concerns rate_view
proof
  fix e ip s t
  show "\<not> rate_concerns e ip \<Longrightarrow> rate_view (snd (rate_answer e s)) ip = rate_view s ip"
    by (cases e) (simp_all add: rate_view_def allow_other)
  show "rate_concerns e ip \<Longrightarrow> rate_view s ip = rate_view t ip \<Longrightarrow>
      fst (rate_answer e s) = fst (rate_answer e t)"
    using allow_same_view(1) [of s ip t] by (cases e) auto
  show "rate_concerns e ip \<Longrightarrow> rate_view s ip = rate_view t ip \<Longrightarrow>
      rate_view (snd (rate_answer e s)) ip = rate_view (snd (rate_answer e t)) ip"
    using allow_same_view(2) [of s ip t] sweep_same_view [of s ip t]
    by (cases e) (auto simp: rate_view_def)
qed

text \<open>The answers of the calls in a history of calls, sweeps and live changes of the limits.\<close>

fun rate_run :: "rate_op list \<Rightarrow> rate_limiter \<Rightarrow> (rate_op \<times> bool option) list" where
  "rate_run [] rl = []"
| "rate_run (e # es) rl = (e, fst (rate_answer e rl)) # rate_run es (snd (rate_answer e rl))"

lemma rate_run_eq: "rate_run es rl = rate_limits.run es rl"
  by (induction es arbitrary: rl) simp_all


section \<open>Tokens stay between zero and the capacity\<close>

text \<open>A rate that the configuration accepts: finite and positive.\<close>

definition rate_on :: "rate_limiter \<Rightarrow> bool" where
  "rate_on rl = (case refill_per_sec rl of Fin r \<Rightarrow> 0 < r | _ \<Rightarrow> False)"

definition rate_inv :: "rate_limiter \<Rightarrow> bool" where
  "rate_inv rl = (\<forall>ip b. buckets rl ip = Some b \<longrightarrow> f64_nonneg (tokens b))"

lemma rate_onE:
  assumes "rate_on rl"
  obtains r where "refill_per_sec rl = Fin r" "0 < r"
  using assms by (auto simp: rate_on_def split: f64.splits)

lemma cap_nonneg [simp]: "f64_nonneg (cap_f64 rl)"
  by (simp add: cap_f64_def f64_of_nat_nonneg)

lemma refilled_nonneg:
  "rate_on rl \<Longrightarrow> f64_nonneg (tokens b) \<Longrightarrow> f64_nonneg (refilled rl now b)"
  by (erule rate_onE)
     (simp add: refilled_def Let_def f64_min_nonneg f64_add_nonneg f64_mul_nonneg as_secs_f64_nonneg)

lemma refilled_le_cap:
  "rate_on rl \<Longrightarrow> f64_nonneg (tokens b) \<Longrightarrow> f64_le (refilled rl now b) (cap_f64 rl)"
  by (erule rate_onE)
     (simp add: refilled_def Let_def f64_min_le f64_add_nonneg f64_mul_nonneg as_secs_f64_nonneg)

lemma bucket_or_new_nonneg: "rate_inv rl \<Longrightarrow> f64_nonneg (tokens (bucket_or_new rl now ip))"
  by (auto simp: bucket_or_new_def rate_inv_def split: option.splits)

lemma f64_sub_1_nonneg: "f64_le (Fin 1) t \<Longrightarrow> f64_nonneg (f64_sub t (Fin 1))"
  by (cases t) (auto simp: f64_sub_def f64_of_rat_nonneg)

lemma rate_inv_new [inv_intros]: "rate_inv (rate_limiter_new r n)"
  by (simp add: rate_inv_def rate_limiter_new_def)

lemma rate_inv_set_limit [inv_intros]: "rate_inv rl \<Longrightarrow> rate_inv (rate_set_limit r n rl)"
  by (simp add: rate_inv_def)

lemma rate_inv_sweep [inv_intros]: "rate_inv rl \<Longrightarrow> rate_inv (sweep now rl)"
  by (auto simp: rate_inv_def sweep_def)

lemma allow_disabled:
  "f64_le (refill_per_sec rl) (Fin 0) \<or> is_loopback ip \<Longrightarrow> allow now ip rl = (True, rl)"
  by (auto simp: allow_def)

lemma rate_on_not_disabled: "rate_on rl \<Longrightarrow> \<not> f64_le (refill_per_sec rl) (Fin 0)"
  by (erule rate_onE) simp

lemma allow_on:
  assumes "rate_on rl" and "\<not> is_loopback ip" and "t = refilled rl now (bucket_or_new rl now ip)"
  shows "fst (allow now ip rl) = f64_le (Fin 1) t"
    and "buckets (snd (allow now ip rl)) ip =
      Some \<lparr>tokens = (if f64_le (Fin 1) t then f64_sub t (Fin 1) else t), last_refill = now\<rparr>"
  using assms rate_on_not_disabled [OF assms(1)] by (simp_all add: allow_def Let_def)

lemma rate_inv_allow [inv_intros]:
  assumes "rate_on rl" and "rate_inv rl"
  shows "rate_inv (snd (allow now ip rl))"
proof (cases "is_loopback ip")
  case True
  with assms show ?thesis by (simp add: allow_disabled)
next
  case False
  have "f64_nonneg (refilled rl now (bucket_or_new rl now ip))"
    using assms by (intro refilled_nonneg bucket_or_new_nonneg)
  then have "f64_nonneg (tokens b)" if "buckets (snd (allow now ip rl)) ip = Some b" for b
    using that f64_sub_1_nonneg by (auto simp: allow_on(2) [OF assms(1) False refl])
  then show ?thesis
    using assms(2) allow_other [of _ ip now rl] unfolding rate_inv_def by metis
qed

lemma rate_on_allow [simp]: "rate_on (snd (allow now ip rl)) = rate_on rl"
  by (simp add: rate_on_def)

text \<open>The two settings that a validated configuration leads to: a positive rate, or disabled.\<close>

definition rate_sane :: "rate_limiter \<Rightarrow> bool" where
  "rate_sane rl \<longleftrightarrow> rate_inv rl \<and> (rate_on rl \<or> refill_per_sec rl = Fin 0)"

definition sane_rate :: "f64 \<Rightarrow> bool" where
  "sane_rate r \<longleftrightarrow> (\<exists>q. r = Fin q \<and> 0 \<le> q)"

lemma rate_sane_new [inv_intros]: "sane_rate r \<Longrightarrow> rate_sane (rate_limiter_new r n)"
  by (auto simp: rate_sane_def sane_rate_def rate_inv_new rate_on_def) (simp_all add: rate_limiter_new_def)

lemma rate_sane_set_limit [inv_intros]:
  "sane_rate r \<Longrightarrow> rate_sane rl \<Longrightarrow> rate_sane (rate_set_limit r n rl)"
  by (auto simp: rate_sane_def sane_rate_def rate_inv_set_limit rate_on_def)

lemma rate_sane_stores [inv_intros]:
  "rate_sane rl \<Longrightarrow> rate_sane (store_capacity n rl)"
  "sane_rate r \<Longrightarrow> rate_sane rl \<Longrightarrow> rate_sane (store_rate r rl)"
  by (auto simp: rate_sane_def sane_rate_def rate_inv_def rate_on_def)

lemma rate_sane_sweep [inv_intros]: "rate_sane rl \<Longrightarrow> rate_sane (sweep now rl)"
  by (simp add: rate_sane_def rate_inv_sweep rate_on_def) (simp add: sweep_def)

lemma rate_sane_allow [inv_intros]: "rate_sane rl \<Longrightarrow> rate_sane (snd (allow now ip rl))"
proof (cases "rate_on rl")
  case True
  then show "rate_sane rl \<Longrightarrow> rate_sane (snd (allow now ip rl))"
    by (simp add: rate_sane_def rate_inv_allow)
next
  case False
  then show "rate_sane rl \<Longrightarrow> rate_sane (snd (allow now ip rl))"
    by (auto simp: rate_sane_def allow_disabled)
qed


section \<open>Sweeping loses nothing\<close>

text \<open>
  Two limiters that agree at time \<open>now\<close>: same settings, and per address the same bucket, or the
  second has forgotten a bucket that is full again at \<open>now\<close>. The relation outlives the passage of
  time, every call and every sweep, and related limiters decide alike.
\<close>

definition full_at :: "rate_limiter \<Rightarrow> instant \<Rightarrow> bucket \<Rightarrow> bool" where
  "full_at rl now b = (refilled rl now b = cap_f64 rl)"

definition forgets :: "instant \<Rightarrow> rate_limiter \<Rightarrow> rate_limiter \<Rightarrow> bool" where
  "forgets now rl rl' =
     (capacity rl' = capacity rl \<and> refill_per_sec rl' = refill_per_sec rl \<and>
      (\<forall>ip. buckets rl' ip = buckets rl ip \<or>
            (buckets rl' ip = None \<and> (\<exists>b. buckets rl ip = Some b \<and> full_at rl now b))))"

lemma f64_le_antisym: "f64_le x y \<Longrightarrow> f64_le y x \<Longrightarrow> x = y"
  by (cases x; cases y) auto

lemma refilled_mono:
  assumes "rate_on rl" and "f64_nonneg (tokens b)" and "now \<le> now'"
  shows "f64_le (refilled rl now b) (refilled rl now' b)"
proof -
  from assms(1) obtain r where r: "refill_per_sec rl = Fin r" "0 < r" by (rule rate_onE)
  let ?e = "\<lambda>t. as_secs_f64 (saturating_duration_since t (last_refill b))"
  have "f64_le (?e now) (?e now')"
    using assms(3) by (intro as_secs_f64_mono saturating_duration_since_mono)
  then have "f64_le (f64_add (tokens b) (f64_mul (?e now) (Fin r))) (f64_add (tokens b) (f64_mul (?e now') (Fin r)))"
    using assms(2) r(2)
    by (intro f64_add_mono f64_le_refl f64_mul_mono f64_mul_nonneg as_secs_f64_nonneg)
  then show ?thesis
    using assms(2) r
    by (simp add: refilled_def Let_def f64_min_mono f64_add_nonneg f64_mul_nonneg as_secs_f64_nonneg)
qed

lemma full_at_later:
  "rate_on rl \<Longrightarrow> f64_nonneg (tokens b) \<Longrightarrow> now \<le> now' \<Longrightarrow> full_at rl now b \<Longrightarrow> full_at rl now' b"
  unfolding full_at_def
  using refilled_mono [of rl b now now'] refilled_le_cap [of rl b now'] by (auto intro: f64_le_antisym)

lemma forgets_refl: "forgets now rl rl"
  by (simp add: forgets_def)

lemma forgets_later:
  assumes "rate_on rl" and "rate_inv rl" and "now \<le> now'" and "forgets now rl rl'"
  shows "forgets now' rl rl'"
  using assms full_at_later unfolding forgets_def rate_inv_def by metis

lemma fresh_full: "refilled rl now \<lparr>tokens = cap_f64 rl, last_refill = now\<rparr> = cap_f64 rl"
  if "rate_on rl"
proof -
  from that obtain r where r: "refill_per_sec rl = Fin r" "0 < r" by (rule rate_onE)
  have "f64_add (cap_f64 rl) (Fin 0) = cap_f64 rl" by (simp add: cap_f64_def f64_add_0)
  then show ?thesis by (simp add: refilled_def Let_def r f64_min_left f64_le_refl)
qed

lemma forgets_refilled:
  assumes "rate_on rl" and "forgets now rl rl'"
  shows "refilled rl' now (bucket_or_new rl' now ip) = refilled rl now (bucket_or_new rl now ip)"
proof -
  from assms(2) have cfg: "cap_f64 rl' = cap_f64 rl" "refill_per_sec rl' = refill_per_sec rl"
    by (simp_all add: forgets_def cap_f64_def)
  then have same: "refilled rl' now b = refilled rl now b" for b by (simp add: refilled_def)
  consider "buckets rl' ip = buckets rl ip"
    | b where "buckets rl' ip = None" "buckets rl ip = Some b" "full_at rl now b"
    using assms(2) by (auto simp: forgets_def)
  then show ?thesis
  proof cases
    case 1
    then have "bucket_or_new rl' now ip = bucket_or_new rl now ip"
      by (simp add: bucket_or_new_def cfg split: option.split)
    then show ?thesis by (simp add: same)
  next
    case 2
    then show ?thesis using fresh_full [OF assms(1), of now]
      by (simp add: bucket_or_new_def same cfg full_at_def)
  qed
qed

lemma forgets_allow:
  assumes on: "rate_on rl" and fg: "forgets now rl rl'"
  shows "fst (allow now ip rl') = fst (allow now ip rl)"
    and "forgets now (snd (allow now ip rl)) (snd (allow now ip rl'))"
proof -
  have on': "rate_on rl'" and cfg: "capacity rl' = capacity rl" "refill_per_sec rl' = refill_per_sec rl"
    using on fg by (simp_all add: forgets_def rate_on_def)
  note eq = forgets_refilled [OF on fg, of ip]
  show "fst (allow now ip rl') = fst (allow now ip rl)"
    using allow_on(1) [OF on _ refl] allow_on(1) [OF on' _ refl] eq
    by (cases "is_loopback ip") (simp_all add: allow_disabled)
  have full: "full_at (snd (allow now ip rl)) now b = full_at rl now b" for b
    by (simp add: full_at_def refilled_def cap_f64_def)
  have "buckets (snd (allow now ip rl')) ip = buckets (snd (allow now ip rl)) ip" if "\<not> is_loopback ip"
    using allow_on(2) [OF on that refl] allow_on(2) [OF on' that refl] eq by simp
  then show "forgets now (snd (allow now ip rl)) (snd (allow now ip rl'))"
    using fg allow_other [of _ ip now rl] allow_other [of _ ip now rl']
    unfolding forgets_def full allow_config
    by (cases "is_loopback ip") (simp add: allow_disabled, metis)
qed

lemma forgets_sweep:
  assumes "rate_on rl" and "rate_inv rl'" and "forgets now rl rl'"
  shows "forgets now rl (sweep now rl')"
proof -
  from assms(3) have cfg: "cap_f64 rl' = cap_f64 rl" "refill_per_sec rl' = refill_per_sec rl"
    "capacity rl' = capacity rl" by (simp_all add: forgets_def cap_f64_def)
  then have on': "rate_on rl'" using assms(1) by (simp add: rate_on_def)
  have full: "full_at rl now b"
    if "buckets rl' ip = Some b" "\<not> f64_less (refilled rl' now b) (cap_f64 rl')" for ip b
  proof -
    have "f64_nonneg (tokens b)" using that(1) assms(2) by (auto simp: rate_inv_def)
    then have "f64_le (refilled rl' now b) (cap_f64 rl')" "f64_nonneg (refilled rl' now b)"
      using on' by (simp_all add: refilled_le_cap refilled_nonneg)
    moreover from this have "f64_le (cap_f64 rl') (refilled rl' now b)"
      using that(2) cap_nonneg [of rl'] by (intro f64_not_less_le)
    ultimately have "refilled rl' now b = cap_f64 rl'" by (blast intro: f64_le_antisym)
    then show ?thesis by (simp add: full_at_def cfg refilled_def)
  qed
  have "buckets (sweep now rl') ip = buckets rl' ip \<or>
      (buckets (sweep now rl') ip = None \<and> (\<exists>b. buckets rl' ip = Some b \<and> full_at rl now b))" for ip
    using full [of ip] by (auto simp: sweep_def map_retain_def split: option.splits)
  then show ?thesis using assms(3) unfolding forgets_def by (simp add: sweep_def) metis
qed


section \<open>Runs with sweeps\<close>

text \<open>A timed history of calls and janitor sweeps; the answers are those of the calls.\<close>

datatype rate_event = Call instant ip_addr | Sweep instant

fun event_time :: "rate_event \<Rightarrow> instant" where
  "event_time (Call t _) = t"
| "event_time (Sweep t) = t"

fun decisions :: "rate_event list \<Rightarrow> rate_limiter \<Rightarrow> bool list" where
  "decisions [] rl = []"
| "decisions (Call now ip # es) rl = fst (allow now ip rl) # decisions es (snd (allow now ip rl))"
| "decisions (Sweep now # es) rl = decisions es (sweep now rl)"

definition calls_only :: "rate_event list \<Rightarrow> rate_event list" where
  "calls_only es = filter (\<lambda>e. case e of Call _ _ \<Rightarrow> True | Sweep _ \<Rightarrow> False) es"

lemma decisions_forgets:
  assumes "rate_on rl" "rate_inv rl" "rate_inv rl'" "forgets now rl rl'"
    "sorted (map event_time es)" "\<forall>e \<in> set es. now \<le> event_time e"
  shows "decisions es rl' = decisions (calls_only es) rl"
  using assms
proof (induction es arbitrary: now rl rl')
  case Nil
  then show ?case by (simp add: calls_only_def)
next
  case (Cons e es)
  let ?t = "event_time e"
  have on': "rate_on rl'" using Cons.prems(1,4) by (simp add: forgets_def rate_on_def)
  have fg: "forgets ?t rl rl'" using Cons.prems by (auto intro: forgets_later)
  have later: "sorted (map event_time es)" "\<forall>e \<in> set es. ?t \<le> event_time e"
    using Cons.prems(5) by auto
  show ?case
  proof (cases e)
    case (Call now ip)
    have "decisions es (snd (allow now ip rl')) = decisions (calls_only es) (snd (allow now ip rl))"
      using Cons.prems(1-3) on' fg later Call
      by (intro Cons.IH [of _ _ now]) (simp_all add: rate_inv_allow forgets_allow(2))
    then show ?thesis
      using forgets_allow(1) [OF Cons.prems(1), of now rl' ip] fg Call by (simp add: calls_only_def)
  next
    case (Sweep now)
    have "decisions es (sweep now rl') = decisions (calls_only es) rl"
      using Cons.prems(1-3) fg later Sweep
      by (intro Cons.IH [of _ _ now]) (simp_all add: rate_inv_sweep forgets_sweep)
    then show ?thesis using Sweep by (simp add: calls_only_def)
  qed
qed

lemma decisions_without_sweeps:
  assumes "rate_on rl" "rate_inv rl" "sorted (map event_time es)"
  shows "decisions es rl = decisions (calls_only es) rl"
proof (cases es)
  case Nil
  then show ?thesis by (simp add: calls_only_def)
next
  case (Cons e es')
  then show ?thesis
    using decisions_forgets [OF assms(1,2,2) forgets_refl assms(3), of "event_time e"] assms(3) by auto
qed


section \<open>Bursts and waiting\<close>

lemma refilled_same_instant:
  assumes "rate_on rl" and "k \<le> unat (capacity rl)" and "unat (capacity rl) \<le> 2 ^ 53"
  shows "refilled rl now \<lparr>tokens = Fin (of_nat k), last_refill = now\<rparr> = Fin (of_nat k)"
proof -
  from assms(1) obtain r where r: "refill_per_sec rl = Fin r" by (rule rate_onE)
  have k: "f64_of_nat k = Fin (of_nat k)" using assms by (intro f64_of_nat_exact) simp
  then have "f64_add (Fin (of_nat k)) (Fin 0) = Fin (of_nat k)" by (metis f64_add_0)
  moreover have "f64_le (Fin (of_nat k)) (cap_f64 rl)"
    using f64_of_nat_mono [OF assms(2)] k by (simp add: cap_f64_def)
  ultimately show ?thesis by (simp add: refilled_def Let_def r f64_min_left)
qed

lemma f64_sub_1_nat: "0 < k \<Longrightarrow> k \<le> 2 ^ 53 \<Longrightarrow> f64_sub (Fin (of_nat k)) (Fin 1) = Fin (of_nat (k - 1))"
  using f64_of_nat_exact [of "k - 1"] by (simp add: f64_sub_def f64_of_nat_def of_nat_diff)

text \<open>Calls of one address at one instant: a bucket that holds \<open>k\<close> tokens grants the first \<open>k\<close>.\<close>

lemma burst_from:
  assumes "rate_on rl" "\<not> is_loopback ip" "unat (capacity rl) \<le> 2 ^ 53"
    and "k \<le> unat (capacity rl)" "refilled rl now (bucket_or_new rl now ip) = Fin (of_nat k)"
  shows "decisions (replicate n (Call now ip)) rl = replicate (min n k) True @ replicate (n - k) False"
  using assms
proof (induction n arbitrary: k rl)
  case 0
  then show ?case by simp
next
  case (Suc n)
  let ?rl = "snd (allow now ip rl)"
  note on = allow_on [OF Suc.prems(1,2) refl, of now]
  have frame: "rate_on ?rl" "unat (capacity ?rl) \<le> 2 ^ 53" using Suc.prems by simp_all
  show ?case
  proof (cases k)
    case 0
    have "refilled ?rl now (bucket_or_new ?rl now ip) = Fin (of_nat 0)"
      using refilled_same_instant [OF frame(1) _ frame(2), of 0 now] on Suc.prems(5) 0
      by (simp add: bucket_or_new_def)
    then have "decisions (replicate n (Call now ip)) ?rl = replicate n False"
      using Suc.IH [of ?rl 0] Suc.prems(2) frame by simp
    then show ?thesis using on(1) Suc.prems(5) 0 by simp
  next
    case (Suc j)
    have "f64_sub (Fin (of_nat k)) (Fin 1) = Fin (of_nat j)"
      using f64_sub_1_nat [of k] Suc Suc.prems(3,4) by simp
    then have "refilled ?rl now (bucket_or_new ?rl now ip) = Fin (of_nat j)"
      using refilled_same_instant [OF frame(1) _ frame(2), of j now] on Suc.prems(4,5) Suc
      by (simp add: bucket_or_new_def)
    then have "decisions (replicate n (Call now ip)) ?rl = replicate (min n j) True @ replicate (n - j) False"
      using Suc.IH [of ?rl j] Suc.prems(2,4) frame Suc by simp
    then show ?thesis using on(1) Suc.prems(5) Suc by simp
  qed
qed

lemma fresh_tokens:
  assumes "rate_on rl" "buckets rl ip = None" "unat (capacity rl) \<le> 2 ^ 53"
  shows "refilled rl now (bucket_or_new rl now ip) = Fin (of_nat (unat (capacity rl)))"
  using refilled_same_instant [OF assms(1) order_refl assms(3), of now] assms(2,3)
  by (simp add: bucket_or_new_def cap_f64_def f64_of_nat_exact)

lemma allow_fresh:
  assumes "rate_on rl" "buckets rl ip = None" "1 \<le> unat (capacity rl)" "unat (capacity rl) \<le> 2 ^ 53"
  shows "fst (allow now ip rl)"
proof (cases "is_loopback ip")
  case False
  have "f64_le (Fin 1) (cap_f64 rl)"
    using f64_of_nat_mono [OF assms(3)] f64_of_nat_exact [of 1] by (simp add: cap_f64_def)
  then show ?thesis
    using allow_on(1) [OF assms(1) False refl, of now] fresh_full [OF assms(1), of now] assms(2)
    by (simp add: bucket_or_new_def)
qed (simp add: allow_disabled)

lemma f64_of_rat_1: "f64_of_rat 1 = Fin 1"
  using f64_of_nat_exact [of 1] by (simp add: f64_of_nat_def)

text \<open>A bucket whose time has earned a token holds one.\<close>

lemma refilled_after_wait:
  assumes "rate_on rl" "f64_nonneg (tokens b)" "1 \<le> unat (capacity rl)"
    and "f64_le (Fin 1) (f64_mul (as_secs_f64 (saturating_duration_since now (last_refill b))) (refill_per_sec rl))"
  shows "f64_le (Fin 1) (refilled rl now b)"
proof -
  from assms(1) obtain r where r: "refill_per_sec rl = Fin r" "0 < r" by (rule rate_onE)
  let ?x = "f64_mul (as_secs_f64 (saturating_duration_since now (last_refill b))) (Fin r)"
  have "f64_le (f64_add (Fin 0) (Fin 1)) (f64_add (tokens b) ?x)"
    using assms(2,4) r by (intro f64_add_mono) (simp_all add: f64_nonneg_def)
  then have "f64_le (Fin 1) (f64_add (tokens b) ?x)" by (simp add: f64_of_rat_1)
  moreover have "f64_le (Fin 1) (cap_f64 rl)"
    using f64_of_nat_mono [OF assms(3)] f64_of_nat_exact [of 1] by (simp add: cap_f64_def)
  ultimately show ?thesis by (simp add: refilled_def Let_def r f64_min_def)
qed

lemma allow_after_wait:
  assumes "rate_on rl" "rate_inv rl" "1 \<le> unat (capacity rl)" "buckets rl ip = Some b"
    and "f64_le (Fin 1) (f64_mul (as_secs_f64 (saturating_duration_since now (last_refill b))) (refill_per_sec rl))"
  shows "fst (allow now ip rl)"
proof (cases "is_loopback ip")
  case True
  then show ?thesis by (simp add: allow_disabled)
next
  case False
  have "f64_nonneg (tokens b)" using assms(2,4) by (auto simp: rate_inv_def)
  from refilled_after_wait [OF assms(1) this assms(3,5)] show ?thesis
    using allow_on(1) [OF assms(1) False refl] assms(4) by (simp add: bucket_or_new_def)
qed

text \<open>
  A limited call leaves a bucket with a non-negative number of tokens: the refilled contents,
  which never exceed the capacity, less one when the call is granted; it is granted exactly when
  they are at least one, and no other bucket changes.
\<close>

lemma allow_bounds:
  assumes "rate_on rl" "rate_inv rl" "\<not> is_loopback ip"
  shows "let t = refilled rl now (bucket_or_new rl now ip) in
    f64_nonneg t \<and> f64_le t (cap_f64 rl) \<and>
    (fst (allow now ip rl) \<longleftrightarrow> f64_le (Fin 1) t) \<and>
    (\<exists>b. buckets (snd (allow now ip rl)) = (buckets rl)(ip \<mapsto> b) \<and> f64_nonneg (tokens b) \<and>
      last_refill b = now \<and> tokens b = (if fst (allow now ip rl) then f64_sub t (Fin 1) else t))"
proof -
  let ?t = "refilled rl now (bucket_or_new rl now ip)"
  have t: "f64_nonneg ?t" "f64_le ?t (cap_f64 rl)"
    using assms by (simp_all add: refilled_nonneg refilled_le_cap bucket_or_new_nonneg)
  let ?b = "\<lparr>tokens = (if f64_le (Fin 1) ?t then f64_sub ?t (Fin 1) else ?t), last_refill = now\<rparr>"
  have "buckets (snd (allow now ip rl)) = (buckets rl)(ip \<mapsto> ?b)"
    using allow_on(2) [OF assms(1,3) refl] allow_other [of _ ip now rl] by (auto simp: fun_eq_iff)
  then show ?thesis
    using t allow_on(1) [OF assms(1,3) refl] f64_sub_1_nonneg
    unfolding Let_def by (intro conjI exI [of _ ?b]) auto
qed


section \<open>Properties\<close>

text \<open>A client address, and a limiter of one connection per second with a burst of two.\<close>

definition sample_ip :: ip_addr where
  "sample_ip = V4 203 0 113 1"

definition sample_limiter :: rate_limiter where
  "sample_limiter = rate_limiter_new (Fin 1) 2"

lemma sample_limiter_ok:
  "rate_on sample_limiter" "rate_inv sample_limiter" "\<not> is_loopback sample_ip"
  "buckets sample_limiter ip = None" "unat (capacity sample_limiter) = 2"
  by (simp_all add: sample_limiter_def sample_ip_def rate_limiter_new_def rate_on_def rate_inv_def)

text \<open>
  C23: At one instant, an address that is not tracked is granted exactly \<open>burst\<close> connections and
  refused from then on (for a burst that a double holds exactly).
\<close>

theorem burst_exact:
  assumes "rate_on rl" "\<not> is_loopback ip" "unat (capacity rl) \<le> 2 ^ 53" "buckets rl ip = None"
  shows "decisions (replicate n (Call now ip)) rl =
    replicate (min n (unat (capacity rl))) True @ replicate (n - unat (capacity rl)) False"
  using burst_from [OF assms(1,2,3) order_refl fresh_tokens [OF assms(1,4,3)]] .

lemma burst_exact_witness:
  "decisions (replicate 3 (Call 7 sample_ip)) sample_limiter = [True, True, False]"
proof -
  have "decisions (replicate 3 (Call 7 sample_ip)) sample_limiter = replicate 2 True @ replicate 1 False"
    using burst_exact [OF sample_limiter_ok(1,3) _ sample_limiter_ok(4), of 3 7]
    by (simp only: sample_limiter_ok(5)) simp
  then show ?thesis by (simp only: numeral_2_eq_2 replicate_Suc replicate_0 One_nat_def append.simps)
qed

text \<open>
  C24: The janitor is invisible: in every history of calls and sweeps with increasing times, the
  decisions are those of the same calls without the sweeps.
\<close>

theorem sweeps_invisible:
  assumes "rate_on rl" "rate_inv rl" "sorted (map event_time es)"
  shows "decisions es rl = decisions (calls_only es) rl"
  using assms by (rule decisions_without_sweeps)

lemma sweeps_invisible_witness:
  "decisions [Call 0 sample_ip, Sweep 5, Call 9 sample_ip] sample_limiter =
   decisions [Call 0 sample_ip, Call 9 sample_ip] sample_limiter"
  using sweeps_invisible [OF sample_limiter_ok(1,2), of "[Call 0 sample_ip, Sweep 5, Call 9 sample_ip]"]
  by (simp add: calls_only_def)

text \<open>
  C25: In any history of calls, sweeps and stores of the limits, the answers one address
  gets are those it would get had no other address ever connected.
\<close>

theorem rate_non_interference:
  "map snd (filter (\<lambda>r. rate_concerns (fst r) ip) (rate_run es rl)) =
   map snd (rate_run (filter (\<lambda>e. rate_concerns e ip) es) rl)"
  unfolding rate_run_eq by (rule rate_limits.alone [unfolded rate_limits.answers_def rate_limits.own_def])

end
