(* ===== verification/Main_Loop.thy ===== *)
theory Main_Loop
  imports Router Conn_Limiter Ip_Limiter Rate_Limiter
begin

text \<open>
  \<open>src/main.rs\<close>: startup, the accept loop, the connection tasks it spawns, the reload on SIGHUP, the
  janitor and the drain at shutdown.

  The running process is a \<open>system\<close>: the state of the limiters, the router, the certificate
  resolver, the current configuration, how far a reload has got, and one entry per live connection
  task. Every handler of the source is a function on it; \<open>sys_step\<close> interleaves them, one event at a
  time, in any order the executor may choose. A reload is a sequence of steps, one for each piece of
  shared state it replaces, so that other events can come between them. A task can also end at any
  point, which covers a panic in it: its guard and its slots are dropped on every way out. At a
  shutdown signal the future of the accept loop is dropped, and the slot it may hold with it.

  The invariant \<open>sys_inv\<close> ties the counters and the semaphore to the tasks that are alive; it holds
  after startup and after every step.
\<close>

definition SHUTDOWN_GRACE :: duration where
  "SHUTDOWN_GRACE = dur_from_secs 30"

definition ACCEPT_ERROR_BACKOFF :: duration where
  "ACCEPT_ERROR_BACKOFF = dur_from_millis 100"

section \<open>The process\<close>

text \<open>A spawned task holds its connection slot, its IP slot (an address) and, while it is being
  served, a guard.\<close>

datatype 's task =
  Spawned 's ip_addr | Being_served "'s serving" ip_addr | Finished "active_guard option" ip_addr

primrec task_ip_slot :: "'s task \<Rightarrow> ip_addr" where
  "task_ip_slot (Spawned stream a) = a"
| "task_ip_slot (Being_served sv a) = a"
| "task_ip_slot (Finished g a) = a"

primrec task_guard :: "'s task \<Rightarrow> active_guard option" where
  "task_guard (Spawned stream a) = None"
| "task_guard (Being_served sv a) = Some (sv_guard sv)"
| "task_guard (Finished g a) = g"

text \<open>Whether the accept loop has taken a slot for the connection it waits for, or has been dropped.\<close>

datatype acceptor = Needs_slot | Holds_slot | Stopped

text \<open>Where the loop of \<open>hot_reload\<close> stands: waiting for a SIGHUP, or with the loaded configuration in
  front of the call that updates the certificate, the router, the IP limit or the rate limit, or between
  the two stores of that last call.\<close>

datatype ('cert, 'skey) reload_phase =
  Watching
| Loaded service_config "('cert, 'skey) certified_key"
| Cert_updated service_config
| Routes_swapped service_config
| Ip_limit_set service_config
| Burst_set service_config
| Watcher_ended

record ('cert, 'skey, 's, 'sem) system =
  sys_limiter :: "'sem connection_limiter"
  sys_ip :: ip_limiter
  sys_rate :: rate_limiter
  sys_router :: router
  sys_resolver :: "('cert, 'skey) reloadable_cert_resolver"
  sys_config :: service_config
  sys_reload :: "('cert, 'skey) reload_phase"
  sys_metrics :: "(socket_addr \<times> service_config) option"
  sys_accept :: acceptor
  sys_tasks :: "nat \<Rightarrow> 's task option"
  sys_next :: nat

record ('s, 'e, 'conn, 'sem) env =
  env_sem :: "'sem semaphore"
  env_net :: "('s, 'e, 'conn) net"
  env_lib :: http_lib
  env_versions_ok :: "protocol_version list \<Rightarrow> bool"
  env_toml :: "string \<Rightarrow> raw_config option"

abbreviation sys_stats :: "('cert, 'skey, 's, 'sem) system \<Rightarrow> stats" where
  "sys_stats s \<equiv> limiter_stats (sys_limiter s)"

definition on_stats ::
  "(stats \<Rightarrow> stats) \<Rightarrow> ('cert, 'skey, 's, 'sem) system \<Rightarrow> ('cert, 'skey, 's, 'sem) system" where
  "on_stats f s = s\<lparr>sys_limiter := (sys_limiter s)\<lparr>limiter_stats := f (sys_stats s)\<rparr>\<rparr>"

definition set_task ::
  "nat \<Rightarrow> 's task option \<Rightarrow> ('cert, 'skey, 's, 'sem) system \<Rightarrow> ('cert, 'skey, 's, 'sem) system" where
  "set_task i t s = s\<lparr>sys_tasks := (sys_tasks s)(i := t)\<rparr>"


section \<open>The accept loop\<close>

text \<open>\<open>acquire_slot().await\<close> at the head of the loop.\<close>

definition accept_acquire ::
  "('s, 'e, 'conn, 'sem) env \<Rightarrow> ('cert, 'skey, 's, 'sem) system \<Rightarrow> ('cert, 'skey, 's, 'sem) system option" where
  "accept_acquire env s =
     (case acquire_slot (env_sem env) (sys_limiter s) of
        None \<Rightarrow> None
      | Some cl \<Rightarrow> Some (s\<lparr>sys_limiter := cl, sys_accept := Holds_slot\<rparr>))"

text \<open>\<open>drop(conn_slot)\<close> and \<open>continue\<close>.\<close>

definition give_back_slot ::
  "('s, 'e, 'conn, 'sem) env \<Rightarrow> ('cert, 'skey, 's, 'sem) system \<Rightarrow> ('cert, 'skey, 's, 'sem) system" where
  "give_back_slot env s =
     s\<lparr>sys_limiter := drop_slot (env_sem env) (sys_limiter s), sys_accept := Needs_slot\<rparr>"

text \<open>\<open>select!\<close> in \<open>main\<close> drops the accept loop when the shutdown signal comes first.\<close>

definition accept_stop ::
  "('s, 'e, 'conn, 'sem) env \<Rightarrow> ('cert, 'skey, 's, 'sem) system \<Rightarrow> ('cert, 'skey, 's, 'sem) system" where
  "accept_stop env s =
     (if sys_accept s = Holds_slot then give_back_slot env s else s)\<lparr>sys_accept := Stopped\<rparr>"

text \<open>\<open>accept()\<close> failed: the sleep asked for, and the slot given back.\<close>

definition accept_error ::
  "('s, 'e, 'conn, 'sem) env \<Rightarrow> ('cert, 'skey, 's, 'sem) system
    \<Rightarrow> duration \<times> ('cert, 'skey, 's, 'sem) system" where
  "accept_error env s = (ACCEPT_ERROR_BACKOFF, give_back_slot env s)"

definition count_rate_rejected :: "stats \<Rightarrow> stats" where
  "count_rate_rejected st =
     st\<lparr>connections_rejected_rate_limit_total := connections_rejected_rate_limit_total st + 1\<rparr>"

definition count_ip_rejected :: "stats \<Rightarrow> stats" where
  "count_ip_rejected st =
     st\<lparr>connections_rejected_ip_limit_total := connections_rejected_ip_limit_total st + 1\<rparr>"

definition accept_ok ::
  "('s, 'e, 'conn, 'sem) env \<Rightarrow> instant \<Rightarrow> 's \<Rightarrow> socket_addr \<Rightarrow> ('cert, 'skey, 's, 'sem) system
    \<Rightarrow> ('cert, 'skey, 's, 'sem) system" where
  "accept_ok env now stream peer s =
     (let (allowed, rate') = allow now (sa_ip peer) (sys_rate s);
          s1 = s\<lparr>sys_rate := rate'\<rparr>
      in if \<not> allowed then on_stats count_rate_rejected (give_back_slot env s1)
         else
           let (ip_slot, ip') = try_acquire_slot (sa_ip peer) (sys_ip s1);
               s2 = s1\<lparr>sys_ip := ip'\<rparr>
           in case ip_slot of
                None \<Rightarrow> on_stats count_ip_rejected (give_back_slot env s2)
              | Some slot \<Rightarrow>
                  (set_task (sys_next s2) (Some (Spawned stream slot)) s2)
                    \<lparr>sys_accept := Needs_slot, sys_next := Suc (sys_next s2)\<rparr>)"


section \<open>The spawned task\<close>

definition task_start ::
  "('s, 'e, 'conn, 'sem) env \<Rightarrow> instant \<Rightarrow> nat \<Rightarrow> 's \<Rightarrow> ip_addr \<Rightarrow> ('cert, 'skey, 's, 'sem) system
    \<Rightarrow> ('cert, 'skey, 's, 'sem) system" where
  "task_start env now i stream slot s =
     (let (sv, st') = route_start (env_net env) (sys_router s) now stream (sys_stats s);
          t = (case sv of Closed _ \<Rightarrow> Finished None slot | Served v \<Rightarrow> Being_served v slot)
      in set_task i (Some t) (on_stats (\<lambda>_. st') s))"

definition task_body ::
  "('s, 'e, 'conn, 'sem) env \<Rightarrow> nat \<Rightarrow> 's serving \<Rightarrow> ip_addr \<Rightarrow> ('cert, 'skey, 's, 'sem) system
    \<Rightarrow> ('cert, 'skey, 's, 'sem) system" where
  "task_body env i sv slot s =
     (let (_, st') = route_body (env_versions_ok env) (env_lib env) (env_net env) (sys_router s) sv
                       (sys_stats s)
      in set_task i (Some (Finished (Some (sv_guard sv)) slot)) (on_stats (\<lambda>_. st') s))"

text \<open>The task ends, normally or by a panic: its guard is dropped, then \<open>_ip_slot\<close>, then
  \<open>_conn_slot\<close>.\<close>

definition task_end ::
  "('s, 'e, 'conn, 'sem) env \<Rightarrow> instant \<Rightarrow> nat \<Rightarrow> 's task \<Rightarrow> ('cert, 'skey, 's, 'sem) system
    \<Rightarrow> ('cert, 'skey, 's, 'sem) system" where
  "task_end env now i t s =
     (let s1 = (case task_guard t of None \<Rightarrow> s | Some g \<Rightarrow> on_stats (drop_guard now g) s);
          s2 = s1\<lparr>sys_ip := drop_ip_slot (task_ip_slot t) (sys_ip s1)\<rparr>;
          s3 = s2\<lparr>sys_limiter := drop_slot (env_sem env) (sys_limiter s2)\<rparr>
      in set_task i None s3)"


section \<open>The janitor and the reload\<close>

definition janitor_tick ::
  "instant \<Rightarrow> ('cert, 'skey, 's, 'sem) system \<Rightarrow> ('cert, 'skey, 's, 'sem) system" where
  "janitor_tick now s = s\<lparr>sys_rate := sweep now (sys_rate s)\<rparr>"

text \<open>The janitor's loop over its ticks.\<close>

definition run_janitor :: "instant list \<Rightarrow> rate_limiter \<Rightarrow> rate_limiter" where
  "run_janitor ticks rl = fold sweep ticks rl"

text \<open>One SIGHUP: the warnings that are logged, and the configuration and key that are loaded. A
  failure leaves everything as it was.\<close>

definition reload_load ::
  "('s, 'e, 'conn, 'sem) env \<Rightarrow> host \<Rightarrow> ('cert, 'der, 'skey) tls_provider
    \<Rightarrow> ('cert, 'skey, 's, 'sem) system \<Rightarrow> reload_warning list \<times> ('cert, 'skey, 's, 'sem) system" where
  "reload_load env h p s =
     (case try_load (env_toml env) h of
        Inl e \<Rightarrow> ([], s)
      | Inr new_config \<Rightarrow>
          let warnings = warn_about_unreloadable_changes (sys_config s) new_config in
          case load_certified_key p (tls_cert_path new_config) (tls_key_path new_config) of
            Inl e \<Rightarrow> (warnings, s)
          | Inr key \<Rightarrow> (warnings, s\<lparr>sys_reload := Loaded new_config key\<rparr>))"

text \<open>The calls that follow, one at a time; a panic of \<open>Router::reload\<close> ends the watcher.\<close>

definition reload_next ::
  "('s, 'e, 'conn, 'sem) env \<Rightarrow> ('cert, 'skey, 's, 'sem) system \<Rightarrow> ('cert, 'skey, 's, 'sem) system" where
  "reload_next env s =
     (case sys_reload s of
        Watching \<Rightarrow> s
      | Loaded cfg key \<Rightarrow>
          s\<lparr>sys_resolver := cert_resolver_update key (sys_resolver s), sys_reload := Cert_updated cfg\<rparr>
      | Cert_updated cfg \<Rightarrow>
          (case router_reload (env_versions_ok env) cfg (sys_router s) of
             Inl e \<Rightarrow> s\<lparr>sys_reload := Watcher_ended\<rparr>
           | Inr r \<Rightarrow> s\<lparr>sys_router := r, sys_reload := Routes_swapped cfg\<rparr>)
      | Routes_swapped cfg \<Rightarrow>
          s\<lparr>sys_ip := ip_set_limit (or_default (max_connections_per_ip cfg) 0) (sys_ip s),
            sys_reload := Ip_limit_set cfg\<rparr>
      | Ip_limit_set cfg \<Rightarrow>
          s\<lparr>sys_rate := store_capacity (or_default (connection_burst_per_ip cfg) 10) (sys_rate s),
            sys_reload := Burst_set cfg\<rparr>
      | Burst_set cfg \<Rightarrow>
          s\<lparr>sys_rate := store_rate (or_default (connection_rate_per_ip cfg) (Fin 0)) (sys_rate s),
            sys_config := cfg, sys_reload := Watching\<rparr>
      | Watcher_ended \<Rightarrow> s)"

text \<open>A whole round of the loop, when nothing comes between its steps.\<close>

definition hot_reload ::
  "('s, 'e, 'conn, 'sem) env \<Rightarrow> host \<Rightarrow> ('cert, 'der, 'skey) tls_provider
    \<Rightarrow> ('cert, 'skey, 's, 'sem) system \<Rightarrow> reload_warning list \<times> ('cert, 'skey, 's, 'sem) system" where
  "hot_reload env h p s =
     (let (warnings, s1) = reload_load env h p s;
          s2 = reload_next env s1;
          s3 = reload_next env s2;
          s4 = reload_next env s3;
          s5 = reload_next env s4
      in (warnings, reload_next env s5))"


section \<open>Startup\<close>

text \<open>
  \<open>main\<close> up to the accept loop. Whether the crypto provider can be installed, what the directories
  hold and whether the listener can be bound are parameters; the metrics task, when there is an
  address for it, gets this configuration for good.
\<close>

datatype startup_error =
  Provider_not_installed | Config_failed config_error | Certificate_failed tls_error | Site_failed site_error
| Listen_failed | Router_failed tls_error

definition startup ::
  "('s, 'e, 'conn, 'sem) env \<Rightarrow> host \<Rightarrow> ('cert, 'der, 'skey) tls_provider \<Rightarrow> (string \<Rightarrow> dir)
    \<Rightarrow> bool \<Rightarrow> (socket_addr \<Rightarrow> bool) \<Rightarrow> int \<Rightarrow> instant
    \<Rightarrow> startup_error + ('cert, 'skey, 's, 'sem) system" where
  "startup env h p dirs install_ok bind_ok wall_clock now =
     rbind (ensure install_ok Provider_not_installed) (\<lambda>_.
     rbind (map_err Config_failed (try_load (env_toml env) h)) (\<lambda>cfg.
     rbind (map_err Certificate_failed (build_cert_resolver p cfg)) (\<lambda>resolver.
     rbind (map_err Site_failed
              (site_try_load (http_date (env_lib env)) wall_clock (dirs (static_dir cfg)))) (\<lambda>site.
     let st = new_stats now;
         metrics_api = map_option (\<lambda>addr. (addr, cfg)) (metrics_addr cfg) in
     rbind (ensure (bind_ok (listen_addr cfg)) Listen_failed) (\<lambda>_.
     rbind (map_err Router_failed (router_new (env_versions_ok env) 0 site cfg)) (\<lambda>r.
     Inr \<lparr>sys_limiter = connection_limiter_new (env_sem env) (max_connections cfg) st,
          sys_ip = ip_limiter_new (or_default (max_connections_per_ip cfg) 0),
          sys_rate = rate_limiter_new (or_default (connection_rate_per_ip cfg) (Fin 0))
                       (or_default (connection_burst_per_ip cfg) 10),
          sys_router = r, sys_resolver = resolver, sys_config = cfg, sys_reload = Watching,
          sys_metrics = metrics_api, sys_accept = Needs_slot, sys_tasks = Map.empty, sys_next = 0\<rparr>))))))"


section \<open>Steps\<close>

datatype ('cert, 'der, 'skey, 's) event =
  Ev_acquire | Ev_accept_error | Ev_accept instant 's socket_addr | Ev_shutdown
| Ev_start nat instant | Ev_body nat | Ev_end nat instant
| Ev_sweep instant
| Ev_reload host "('cert, 'der, 'skey) tls_provider" | Ev_reload_next | Ev_watcher_ends

inductive sys_step ::
  "('s, 'e, 'conn, 'sem) env \<Rightarrow> ('cert, 'skey, 's, 'sem) system \<Rightarrow> ('cert, 'der, 'skey, 's) event
    \<Rightarrow> ('cert, 'skey, 's, 'sem) system \<Rightarrow> bool" for env where
  acquire: "sys_accept s = Needs_slot \<Longrightarrow> accept_acquire env s = Some s' \<Longrightarrow> sys_step env s Ev_acquire s'"
| accept_error: "sys_accept s = Holds_slot \<Longrightarrow>
    sys_step env s Ev_accept_error (snd (accept_error env s))"
| accept: "sys_accept s = Holds_slot \<Longrightarrow>
    sys_step env s (Ev_accept now stream peer) (accept_ok env now stream peer s)"
| start: "sys_tasks s i = Some (Spawned stream slot) \<Longrightarrow>
    sys_step env s (Ev_start i now) (task_start env now i stream slot s)"
| body: "sys_tasks s i = Some (Being_served sv slot) \<Longrightarrow>
    sys_step env s (Ev_body i) (task_body env i sv slot s)"
| finish: "sys_tasks s i = Some t \<Longrightarrow> sys_step env s (Ev_end i now) (task_end env now i t s)"
| sweep: "sys_step env s (Ev_sweep now) (janitor_tick now s)"
| reload: "sys_reload s = Watching \<Longrightarrow>
    sys_step env s (Ev_reload h p) (snd (reload_load env h p s))"
| reload_next: "sys_reload s \<notin> {Watching, Watcher_ended} \<Longrightarrow>
    sys_step env s Ev_reload_next (reload_next env s)"
| watcher_ends: "sys_reload s = Watching \<Longrightarrow>
    sys_step env s Ev_watcher_ends (s\<lparr>sys_reload := Watcher_ended\<rparr>)"
| shutdown: "sys_accept s \<noteq> Stopped \<Longrightarrow> sys_step env s Ev_shutdown (accept_stop env s)"

inductive_cases sys_step_acquireE: "sys_step env s Ev_acquire s'"
inductive_cases sys_step_acceptE: "sys_step env s (Ev_accept now stream peer) s'"

inductive sys_run ::
  "('s, 'e, 'conn, 'sem) env \<Rightarrow> ('cert, 'skey, 's, 'sem) system \<Rightarrow> ('cert, 'der, 'skey, 's) event list
    \<Rightarrow> ('cert, 'skey, 's, 'sem) system \<Rightarrow> bool" for env where
  run_nil: "sys_run env s [] s"
| run_step: "sys_step env s e s' \<Longrightarrow> sys_run env s' es s'' \<Longrightarrow> sys_run env s (e # es) s''"


section \<open>Draining\<close>

text \<open>
  The loop of \<open>wait_for_drain\<close>. Its \<open>k\<close>-th round reads the counter and then the clock: \<open>reading k\<close>
  is what it finds. The loop has no bound of its own, so its not returning is \<open>None\<close>.
\<close>

definition POLL_INTERVAL :: duration where
  "POLL_INTERVAL = dur_from_millis 200"

datatype drain_result = Drained | Grace_period_elapsed int

partial_function (option) drain_loop ::
  "(nat \<Rightarrow> int \<times> instant) \<Rightarrow> instant \<Rightarrow> nat \<Rightarrow> (drain_result \<times> nat) option" where
  "drain_loop reading deadline k =
     (let (active, now) = reading k in
      if active \<le> 0 then Some (Drained, k)
      else if deadline \<le> now then Some (Grace_period_elapsed active, k)
      else drain_loop reading deadline (Suc k))"

definition wait_for_drain :: "(nat \<Rightarrow> int \<times> instant) \<Rightarrow> instant \<Rightarrow> duration \<Rightarrow> (drain_result \<times> nat) option" where
  "wait_for_drain reading now grace_period = drain_loop reading (now + grace_period) 0"

lemma drain_loop_returns:
  assumes "\<forall>k. snd (reading k) + POLL_INTERVAL \<le> snd (reading (Suc k))" "t0 \<le> snd (reading 0)"
    and "d \<le> m * POLL_INTERVAL" "k \<le> m" "\<forall>j < k. 0 < fst (reading j) \<and> snd (reading j) < t0 + d"
  shows "\<exists>r k'. drain_loop reading (t0 + d) k = Some (r, k') \<and> k' \<le> m \<and>
    (\<forall>j < k'. 0 < fst (reading j) \<and> snd (reading j) < t0 + d) \<and>
    (case r of Drained \<Rightarrow> fst (reading k') \<le> 0
     | Grace_period_elapsed a \<Rightarrow> fst (reading k') = a \<and> 0 < a \<and> t0 + d \<le> snd (reading k'))"
  using assms(4,5)
proof (induction "m - k" arbitrary: k)
  case 0
  have clock: "t0 + j * POLL_INTERVAL \<le> snd (reading j)" for j
  proof (induction j)
    case (Suc j)
    then show ?case using assms(1) [rule_format, of j] by simp
  qed (use assms(2) in simp)
  have "k = m" using 0 by simp
  then have "t0 + d \<le> snd (reading k)" using clock [of m] assms(3) by simp
  then show ?case
    using 0 by (subst drain_loop.simps) (auto simp: case_prod_unfold Let_def)
next
  case (Suc n)
  show ?case
  proof (cases "fst (reading k) \<le> 0 \<or> t0 + d \<le> snd (reading k)")
    case True
    then show ?thesis
      using Suc.prems by (subst drain_loop.simps) (auto simp: case_prod_unfold Let_def)
  next
    case False
    then have step: "drain_loop reading (t0 + d) k = drain_loop reading (t0 + d) (Suc k)"
      by (subst drain_loop.simps) (simp add: case_prod_unfold Let_def)
    have "\<forall>j < Suc k. 0 < fst (reading j) \<and> snd (reading j) < t0 + d"
      using Suc.prems(2) False by (auto simp: less_Suc_eq)
    then show ?thesis using Suc.hyps(1) [of "Suc k"] Suc.hyps(2) step by auto
  qed
qed


section \<open>Properties\<close>

text \<open>
  The drain at shutdown always returns, after at most 151 readings of the counter: at the first
  that finds no connection left, or at the first after the grace period, with the number then
  still active. (A sleep takes at least the time asked for.)
\<close>

theorem drain_returns:
  assumes "\<forall>k. snd (reading k) + POLL_INTERVAL \<le> snd (reading (Suc k))" "now \<le> snd (reading 0)"
  shows "\<exists>r k. wait_for_drain reading now SHUTDOWN_GRACE = Some (r, k) \<and> k \<le> 150 \<and>
    (\<forall>j < k. 0 < fst (reading j) \<and> snd (reading j) < now + SHUTDOWN_GRACE) \<and>
    (case r of Drained \<Rightarrow> fst (reading k) \<le> 0
     | Grace_period_elapsed a \<Rightarrow> fst (reading k) = a \<and> 0 < a \<and> now + SHUTDOWN_GRACE \<le> snd (reading k))"
  unfolding wait_for_drain_def
  by (rule drain_loop_returns [OF assms]) (simp_all add: SHUTDOWN_GRACE_def POLL_INTERVAL_def std_simps)

lemma drain_returns_witness:
  "\<exists>r k. wait_for_drain (\<lambda>k. (if k < 2 then 1 else 0, 200000000 * k)) 0 SHUTDOWN_GRACE = Some (r, k) \<and> k \<le> 150"
proof -
  let ?reading = "\<lambda>k. (if k < 2 then 1 else 0 :: int, 200000000 * k :: nat)"
  have "\<forall>k. snd (?reading k) + POLL_INTERVAL \<le> snd (?reading (Suc k))" "0 \<le> snd (?reading 0)"
    by (simp_all add: POLL_INTERVAL_def std_simps)
  then show ?thesis using drain_returns [of ?reading 0] by blast
qed

end
