(* ===== verification/System_Inv.thy ===== *)
theory System_Inv
  imports Main_Loop
begin

text \<open>
  The invariant of the running process (\<open>src/main.rs\<close> with the limiters and the statistics): the
  semaphore, the \<open>connections\<close> counter, the two gauges and the IP counters agree with the tasks
  that are alive. One preservation lemma per handler, composed over \<open>sys_step\<close> and \<open>sys_run\<close>.
\<close>

section \<open>Counting tasks\<close>

definition tcount :: "('t \<Rightarrow> bool) \<Rightarrow> (nat \<Rightarrow> 't option) \<Rightarrow> nat" where
  "tcount P m = card {i. case m i of Some t \<Rightarrow> P t | None \<Rightarrow> False}"

lemma tcount_empty [simp]: "tcount P Map.empty = 0"
  by (simp add: tcount_def)

lemma tcount_finite: "finite (dom m) \<Longrightarrow> finite {i. case m i of Some t \<Rightarrow> P t | None \<Rightarrow> False}"
  by (rule finite_subset [of _ "dom m"]) (auto split: option.splits)

lemma tcount_del:
  assumes "finite (dom m)" and "m i = Some t"
  shows "tcount P m = tcount P (m(i := None)) + of_bool (P t)"
proof -
  let ?S = "{j. case (m(i := None)) j of Some t \<Rightarrow> P t | None \<Rightarrow> False}"
  have fin: "finite ?S"
    by (rule finite_subset [OF _ assms(1)]) (auto split: option.splits if_splits)
  have "{j. case m j of Some t \<Rightarrow> P t | None \<Rightarrow> False} = (if P t then insert i ?S else ?S)"
    using assms(2) by (auto split: if_splits)
  moreover have "i \<notin> ?S" by simp
  ultimately show ?thesis using fin by (simp add: tcount_def)
qed

lemma tcount_new:
  assumes "finite (dom m)" and "m i = None"
  shows "tcount P (m(i \<mapsto> t)) = tcount P m + of_bool (P t)"
proof -
  have "(m(i \<mapsto> t))(i := None) = m" using assms(2) by auto
  then show ?thesis using tcount_del [of "m(i \<mapsto> t)" i t P] assms(1) by simp
qed

lemma tcount_upd:
  assumes "finite (dom m)" and "m i = Some t'"
  shows "tcount P (m(i \<mapsto> t)) + of_bool (P t') = tcount P m + of_bool (P t)"
  using tcount_del [OF assms, of P] tcount_new [of "m(i := None)" i P t] assms(1) by simp

lemma tcount_same:
  assumes "finite (dom m)" and "m i = Some t'" and "P t = P t'"
  shows "tcount P (m(i \<mapsto> t)) = tcount P m"
  using tcount_upd [OF assms(1,2), of P t] assms(3) by simp

lemma tcount_True: "tcount (\<lambda>_. True) m = card (dom m)"
proof -
  have "{i. case m i of Some t \<Rightarrow> True | None \<Rightarrow> False} = dom m"
    by (auto split: option.splits)
  then show ?thesis by (simp add: tcount_def)
qed

lemma tcount_mono: "finite (dom m) \<Longrightarrow> (\<And>t. P t \<Longrightarrow> Q t) \<Longrightarrow> tcount P m \<le> tcount Q m"
  unfolding tcount_def by (rule card_mono [OF tcount_finite]) (auto split: option.splits)

lemma tcount_disjoint:
  assumes "finite (dom m)" and "\<And>t. \<not> (P t \<and> Q t)"
  shows "tcount P m + tcount Q m \<le> tcount (\<lambda>_. True) m"
proof -
  let ?S = "\<lambda>P. {i. case m i of Some t \<Rightarrow> P t | None \<Rightarrow> False}"
  have "card (?S P) + card (?S Q) = card (?S P \<union> ?S Q)"
    using assms(2) by (intro card_Un_disjoint [symmetric] tcount_finite assms(1)) (auto split: option.splits)
  also have "\<dots> \<le> card (dom m)"
    by (rule card_mono [OF assms(1)]) (auto split: option.splits)
  finally show ?thesis by (simp only: tcount_def [of P] tcount_def [of Q] tcount_True)
qed


section \<open>The invariant\<close>

definition guarded :: "route_kind \<Rightarrow> 's task \<Rightarrow> bool" where
  "guarded k t \<longleftrightarrow> (case task_guard t of Some g \<Rightarrow> guard_route g = k | None \<Rightarrow> False)"

definition live_slots :: "('cert, 'skey, 's, 'sem) system \<Rightarrow> ip_addr \<Rightarrow> nat" where
  "live_slots s = (\<lambda>a. tcount (\<lambda>t. task_ip_slot t = a) (sys_tasks s))"

text \<open>Connection slots held: one per task, and the one of the connection being accepted.\<close>

definition slots_held :: "('cert, 'skey, 's, 'sem) system \<Rightarrow> nat" where
  "slots_held s = tcount (\<lambda>_. True) (sys_tasks s) + of_bool (sys_accept s = Holds_slot)"

definition tasks_wf :: "('cert, 'skey, 's, 'sem) system \<Rightarrow> bool" where
  "tasks_wf s \<longleftrightarrow> finite (dom (sys_tasks s)) \<and> (\<forall>i. sys_next s \<le> i \<longrightarrow> sys_tasks s i = None)"

definition gauges_inv :: "('cert, 'skey, 's, 'sem) system \<Rightarrow> bool" where
  "gauges_inv s \<longleftrightarrow> (\<forall>k. guard_gauge k (sys_stats s) = of_nat (tcount (guarded k) (sys_tasks s)))"

text \<open>The configuration a reload is in the middle of applying.\<close>

primrec pending :: "('cert, 'skey) reload_phase \<Rightarrow> service_config option" where
  "pending Watching = None"
| "pending (Loaded cfg key) = Some cfg"
| "pending (Cert_updated cfg) = Some cfg"
| "pending (Routes_swapped cfg) = Some cfg"
| "pending (Ip_limit_set cfg) = Some cfg"
| "pending (Burst_set cfg) = Some cfg"
| "pending Watcher_ended = None"

definition pending_ok :: "(service_config \<Rightarrow> bool) \<Rightarrow> ('cert, 'skey, 's, 'sem) system \<Rightarrow> bool" where
  "pending_ok P s \<longleftrightarrow> (\<forall>cfg. pending (sys_reload s) = Some cfg \<longrightarrow> P cfg)"

definition config_sane :: "service_config \<Rightarrow> bool" where
  "config_sane cfg \<longleftrightarrow> sane_rate (or_default (connection_rate_per_ip cfg) (Fin 0))"

definition sys_inv :: "('sem \<Rightarrow> nat) \<Rightarrow> nat \<Rightarrow> ('cert, 'skey, 's, 'sem) system \<Rightarrow> bool" where
  "sys_inv permits n s \<longleftrightarrow>
     tasks_wf s \<and> slot_inv permits n (sys_limiter s, slots_held s) \<and> gauges_inv s \<and>
     ip_inv (sys_ip s, live_slots s) \<and> rate_sane (sys_rate s) \<and> pending_ok config_sane s"

lemma sys_invD:
  assumes "sys_inv permits n s"
  shows "finite (dom (sys_tasks s))" "sys_tasks s (sys_next s) = None"
    "slot_inv permits n (sys_limiter s, slots_held s)"
    "guard_gauge k (sys_stats s) = of_nat (tcount (guarded k) (sys_tasks s))"
    "ip_inv (sys_ip s, live_slots s)" "rate_sane (sys_rate s)" "pending_ok config_sane s"
  using assms by (simp_all add: sys_inv_def tasks_wf_def gauges_inv_def)


section \<open>The statistics may change, their gauges not\<close>

lemma slot_inv_stats:
  "connections (limiter_stats cl') = connections (limiter_stats cl) \<Longrightarrow>
   connection_slots cl' = connection_slots cl \<Longrightarrow>
   slot_inv permits n (cl', k) = slot_inv permits n (cl, k)"
  by (simp add: slot_inv_def)

lemma on_stats_simps [simp]:
  "sys_stats (on_stats f s) = f (sys_stats s)"
  "connection_slots (sys_limiter (on_stats f s)) = connection_slots (sys_limiter s)"
  "sys_ip (on_stats f s) = sys_ip s" "sys_rate (on_stats f s) = sys_rate s"
  "sys_tasks (on_stats f s) = sys_tasks s" "sys_accept (on_stats f s) = sys_accept s"
  "sys_next (on_stats f s) = sys_next s" "sys_router (on_stats f s) = sys_router s"
  "sys_config (on_stats f s) = sys_config s" "sys_metrics (on_stats f s) = sys_metrics s"
  "sys_reload (on_stats f s) = sys_reload s" "sys_resolver (on_stats f s) = sys_resolver s"
  by (simp_all add: on_stats_def)

lemma set_task_simps [simp]:
  "sys_limiter (set_task i t s) = sys_limiter s"
  "sys_ip (set_task i t s) = sys_ip s" "sys_rate (set_task i t s) = sys_rate s"
  "sys_tasks (set_task i t s) = (sys_tasks s)(i := t)" "sys_accept (set_task i t s) = sys_accept s"
  "sys_next (set_task i t s) = sys_next s" "sys_router (set_task i t s) = sys_router s"
  "sys_config (set_task i t s) = sys_config s" "sys_metrics (set_task i t s) = sys_metrics s"
  "sys_reload (set_task i t s) = sys_reload s" "sys_resolver (set_task i t s) = sys_resolver s"
  by (simp_all add: set_task_def)

lemma guard_gauge_slots [simp]:
  "guard_gauge k (limiter_stats (drop_slot ops cl)) = guard_gauge k (limiter_stats cl)"
  "guard_gauge k (count_slot st) = guard_gauge k st"
  by (simp_all add: guard_gauge_def drop_slot_def uncount_slot_def count_slot_def Let_def split: route_kind.split)

lemma guard_gauge_rejected [simp]:
  "guard_gauge k (count_rate_rejected st) = guard_gauge k st"
  "guard_gauge k (count_ip_rejected st) = guard_gauge k st"
  "connections (count_rate_rejected st) = connections st"
  "connections (count_ip_rejected st) = connections st"
  by (simp_all add: guard_gauge_def count_rate_rejected_def count_ip_rejected_def split: route_kind.split)

lemma acquire_slot_stats:
  "acquire_slot ops cl = Some cl' \<Longrightarrow> limiter_stats cl' = count_slot (limiter_stats cl)"
  by (auto simp: acquire_slot_def split: option.splits)


section \<open>The handlers keep the invariant\<close>

lemma accept_acquire_inv [inv_intros]:
  assumes ops: "semaphore_ok (env_sem env) permits" and inv: "sys_inv permits n s"
    and acc: "sys_accept s = Needs_slot" and s': "accept_acquire env s = Some s'"
  shows "sys_inv permits n s'"
proof -
  obtain cl where cl: "acquire_slot (env_sem env) (sys_limiter s) = Some cl"
    and s'_eq: "s' = s\<lparr>sys_limiter := cl, sys_accept := Holds_slot\<rparr>"
    using s' by (auto simp: accept_acquire_def split: option.splits)
  have "slot_inv permits n (cl, Suc (slots_held s))"
    by (rule acquire_slot_inv [OF ops sys_invD(3) [OF inv] cl])
  moreover have "slots_held s' = Suc (slots_held s)"
    using acc by (simp add: slots_held_def s'_eq)
  ultimately show ?thesis
    using inv acquire_slot_stats [OF cl]
    by (simp add: sys_inv_def pending_ok_def s'_eq tasks_wf_def gauges_inv_def live_slots_def)
qed

lemma give_back_slot_inv:
  assumes ops: "semaphore_ok (env_sem env) permits" and inv: "sys_inv permits n s"
    and acc: "sys_accept s = Holds_slot"
  shows "sys_inv permits n (give_back_slot env s)"
proof -
  have "slots_held s = Suc (slots_held (give_back_slot env s))"
    using acc by (simp add: slots_held_def give_back_slot_def)
  then have "slot_inv permits n (drop_slot (env_sem env) (sys_limiter s), slots_held (give_back_slot env s))"
    using drop_slot_inv [OF ops] sys_invD(3) [OF inv] by simp
  then show ?thesis
    using inv by (simp add: sys_inv_def pending_ok_def give_back_slot_def tasks_wf_def gauges_inv_def live_slots_def)
qed

lemma on_stats_inv:
  assumes "sys_inv permits n s" and "connections (f (sys_stats s)) = connections (sys_stats s)"
    and "\<And>k. guard_gauge k (f (sys_stats s)) = guard_gauge k (sys_stats s)"
  shows "sys_inv permits n (on_stats f s)"
  using assms slot_inv_stats [of "sys_limiter (on_stats f s)" "sys_limiter s"]
  by (simp add: sys_inv_def pending_ok_def tasks_wf_def gauges_inv_def slots_held_def live_slots_def)

lemma rate_update_inv:
  "sys_inv permits n s \<Longrightarrow> rate_sane rl \<Longrightarrow> sys_inv permits n (s\<lparr>sys_rate := rl\<rparr>)"
  by (simp add: sys_inv_def pending_ok_def tasks_wf_def gauges_inv_def slots_held_def live_slots_def)

text \<open>The step of the IP history that a change of the IP limiter is.\<close>

lemma live_slots_new:
  assumes "finite (dom (sys_tasks s))" and "sys_tasks s i = None"
  shows "live_slots (set_task i (Some t) s) =
    (live_slots s)(task_ip_slot t := Suc (live_slots s (task_ip_slot t)))"
  using tcount_new [OF assms] by (auto simp: live_slots_def)

lemma live_slots_del:
  assumes "finite (dom (sys_tasks s))" and "sys_tasks s i = Some t"
  shows "live_slots s (task_ip_slot t) \<noteq> 0"
    and "live_slots (set_task i None s) =
      (live_slots s)(task_ip_slot t := live_slots s (task_ip_slot t) - 1)"
  using tcount_del [OF assms] by (auto simp: live_slots_def)

lemma accept_ok_inv [inv_intros]:
  assumes ops: "semaphore_ok (env_sem env) permits" and inv: "sys_inv permits n s"
    and acc: "sys_accept s = Holds_slot"
  shows "sys_inv permits n (accept_ok env now stream peer s)"
proof -
  obtain allowed rate' where rate: "allow now (sa_ip peer) (sys_rate s) = (allowed, rate')" by fastforce
  define s1 where "s1 = s\<lparr>sys_rate := rate'\<rparr>"
  have "rate_sane rate'"
    using rate_sane_allow [of "sys_rate s" now "sa_ip peer"] sys_invD(6) [OF inv] rate by simp
  then have inv1: "sys_inv permits n s1" unfolding s1_def by (rule rate_update_inv [OF inv])
  have acc1: "sys_accept s1 = Holds_slot" using acc by (simp add: s1_def)
  obtain ip_slot ip' where ip: "try_acquire_slot (sa_ip peer) (sys_ip s1) = (ip_slot, ip')" by fastforce
  define s2 where "s2 = s1\<lparr>sys_ip := ip'\<rparr>"
  have ip_step: "ip_inv (ip_op_step (OpAcquire (sa_ip peer)) (sys_ip s1, live_slots s1))"
    by (rule ip_inv_step [OF sys_invD(5) [OF inv1]])
  consider (rate) "\<not> allowed" | (ip) "allowed" "ip_slot = None" | (ok) slot where "allowed" "ip_slot = Some slot"
    by (cases ip_slot) auto
  then show ?thesis
  proof cases
    case rate
    have "sys_inv permits n (on_stats count_rate_rejected (give_back_slot env s1))"
      by (rule on_stats_inv [OF give_back_slot_inv [OF ops inv1 acc1]]) simp_all
    then show ?thesis using rate \<open>allow now _ _ = _\<close> by (simp add: accept_ok_def s1_def)
  next
    case ip
    have "ip_inv (ip', live_slots s1)" using ip_step ip \<open>try_acquire_slot _ _ = _\<close> by simp
    then have inv2: "sys_inv permits n s2"
      using inv1 by (simp add: sys_inv_def pending_ok_def s2_def tasks_wf_def gauges_inv_def slots_held_def live_slots_def)
    have "sys_inv permits n (on_stats count_ip_rejected (give_back_slot env s2))"
      by (rule on_stats_inv [OF give_back_slot_inv [OF ops inv2]]) (simp_all add: s2_def acc1)
    then show ?thesis using ip \<open>allow now _ _ = _\<close> \<open>try_acquire_slot _ _ = _\<close>
      by (simp add: accept_ok_def s1_def s2_def)
  next
    case ok
    have slot: "slot = sa_ip peer"
      using ok \<open>try_acquire_slot _ _ = _\<close> by (auto simp: try_acquire_slot_def Let_def split: if_splits)
    define s3 where "s3 = (set_task (sys_next s2) (Some (Spawned stream slot)) s2)
      \<lparr>sys_accept := Needs_slot, sys_next := Suc (sys_next s2)\<rparr>"
    have fin: "finite (dom (sys_tasks s2))" and new: "sys_tasks s2 (sys_next s2) = None"
      using sys_invD(1,2) [OF inv1] by (simp_all add: s2_def)
    have live: "live_slots s3 = (live_slots s1)(sa_ip peer := Suc (live_slots s1 (sa_ip peer)))"
      using live_slots_new [OF fin new, of "Spawned stream slot"]
      by (simp add: slot s3_def live_slots_def s2_def fun_eq_iff)
    have "ip_inv (ip', live_slots s3)"
      using ip_step ok \<open>try_acquire_slot _ _ = _\<close> by (simp add: live)
    moreover have "slots_held s3 = slots_held s1"
      using acc1 tcount_new [OF fin new, of "\<lambda>_. True"] by (simp add: slots_held_def s3_def s2_def)
    moreover have "tcount (guarded k) (sys_tasks s3) = tcount (guarded k) (sys_tasks s1)" for k
      using tcount_new [OF fin new, of "guarded k"] by (simp add: s3_def s2_def guarded_def)
    moreover have "tasks_wf s3" using inv1 fin by (simp add: sys_inv_def tasks_wf_def s3_def s2_def)
    ultimately have "sys_inv permits n s3"
      using inv1 by (simp add: sys_inv_def pending_ok_def gauges_inv_def s3_def s2_def)
    then show ?thesis using ok \<open>allow now _ _ = _\<close> \<open>try_acquire_slot _ _ = _\<close>
      by (simp add: accept_ok_def s1_def s2_def s3_def)
  qed
qed

text \<open>A task that moves on keeps its slots.\<close>

lemma move_task_inv:
  assumes inv: "sys_inv permits n s" and t: "sys_tasks s i = Some t"
    and slot: "task_ip_slot t' = task_ip_slot t"
    and conn: "connections st' = connections (sys_stats s)"
    and gauge: "\<And>k. guard_gauge k st' + of_bool (guarded k t) = guard_gauge k (sys_stats s) + of_bool (guarded k t')"
  shows "sys_inv permits n (set_task i (Some t') (on_stats (\<lambda>_. st') s))"
proof -
  let ?s = "set_task i (Some t') (on_stats (\<lambda>_. st') s)"
  note fin = sys_invD(1) [OF inv]
  have "live_slots ?s = live_slots s"
    using tcount_same [OF fin t] slot by (auto simp: live_slots_def fun_eq_iff)
  moreover have "slots_held ?s = slots_held s"
    using tcount_same [OF fin t, of "\<lambda>_. True"] by (simp add: slots_held_def)
  moreover have "guard_gauge k st' = of_nat (tcount (guarded k) (sys_tasks ?s))" for k
  proof -
    have "(of_nat (tcount (guarded k) (sys_tasks ?s)) :: i64) + of_bool (guarded k t)
        = of_nat (tcount (guarded k) (sys_tasks s)) + of_bool (guarded k t')"
      using arg_cong [OF tcount_upd [OF fin t, of "guarded k" t'], of "of_nat :: nat \<Rightarrow> i64"] by simp
    then show ?thesis using gauge [of k] sys_invD(4) [OF inv, of k] by (metis add_right_imp_eq)
  qed
  moreover have "tasks_wf ?s"
    using inv t by (auto simp: sys_inv_def tasks_wf_def)
  moreover have "slot_inv permits n (sys_limiter ?s, slots_held s)"
    using inv slot_inv_stats [of "sys_limiter ?s" "sys_limiter s"] conn by (simp add: sys_inv_def)
  ultimately show ?thesis using inv by (simp add: sys_inv_def pending_ok_def gauges_inv_def)
qed

lemma task_start_inv [inv_intros]:
  assumes inv: "sys_inv permits n s" and t: "sys_tasks s i = Some (Spawned stream slot)"
  shows "sys_inv permits n (task_start env now i stream slot s)"
proof -
  obtain sv st' where st': "route_start (env_net env) (sys_router s) now stream (sys_stats s) = (sv, st')"
    by fastforce
  show ?thesis
  proof (cases sv)
    case (Closed io)
    then have g: "gauges st' = gauges (sys_stats s)" using route_start_gauges(1) st' by simp
    have "sys_inv permits n (set_task i (Some (Finished None slot)) (on_stats (\<lambda>_. st') s))"
      by (rule move_task_inv [OF inv t])
        (use g guard_gauge_gauges [OF g] in \<open>simp_all add: gauges_def guarded_def\<close>)
    then show ?thesis using st' Closed by (simp add: task_start_def)
  next
    case (Served v)
    note g = route_start_gauges(2) [OF st' [unfolded Served]]
    have "sys_inv permits n (set_task i (Some (Being_served v slot)) (on_stats (\<lambda>_. st') s))"
      by (rule move_task_inv [OF inv t]) (use g in \<open>simp_all add: guarded_def\<close>)
    then show ?thesis using st' Served by (simp add: task_start_def)
  qed
qed

lemma task_body_inv [inv_intros]:
  assumes inv: "sys_inv permits n s" and t: "sys_tasks s i = Some (Being_served sv slot)"
  shows "sys_inv permits n (task_body env i sv slot s)"
proof -
  obtain res st' where st': "route_body (env_versions_ok env) (env_lib env) (env_net env) (sys_router s) sv
      (sys_stats s) = (res, st')" by fastforce
  have g: "gauges st' = gauges (sys_stats s)"
    using route_body_gauges [of "env_versions_ok env" "env_lib env" "env_net env" "sys_router s" sv "sys_stats s"]
      st' by simp
  have "sys_inv permits n (set_task i (Some (Finished (Some (sv_guard sv)) slot)) (on_stats (\<lambda>_. st') s))"
    by (rule move_task_inv [OF inv t])
      (use g guard_gauge_gauges [OF g] in \<open>simp_all add: gauges_def guarded_def\<close>)
  then show ?thesis using st' by (simp add: task_body_def)
qed

lemma task_end_inv [inv_intros]:
  assumes ops: "semaphore_ok (env_sem env) permits" and inv: "sys_inv permits n s"
    and t: "sys_tasks s i = Some t"
  shows "sys_inv permits n (task_end env now i t s)"
proof -
  note fin = sys_invD(1) [OF inv]
  define s1 where "s1 = (case task_guard t of None \<Rightarrow> s | Some g \<Rightarrow> on_stats (drop_guard now g) s)"
  have s1: "sys_tasks s1 = sys_tasks s" "sys_ip s1 = sys_ip s" "sys_rate s1 = sys_rate s"
    "sys_accept s1 = sys_accept s" "sys_next s1 = sys_next s"
    "connection_slots (sys_limiter s1) = connection_slots (sys_limiter s)"
    "connections (sys_stats s1) = connections (sys_stats s)" "sys_reload s1 = sys_reload s"
    by (simp_all add: s1_def split: option.split)
  have gauge1: "guard_gauge k (sys_stats s1) + of_bool (guarded k t) = guard_gauge k (sys_stats s)" for k
    by (simp add: s1_def guarded_def split: option.split)
  have held: "slots_held s = Suc (slots_held (task_end env now i t s))"
    using tcount_del [OF fin t, of "\<lambda>_. True"] s1
    by (simp add: slots_held_def task_end_def Let_def s1_def [symmetric])
  have "slot_inv permits n (sys_limiter s1, slots_held s)"
    using sys_invD(3) [OF inv] slot_inv_stats [of "sys_limiter s1" "sys_limiter s"] s1 by simp
  then have slots: "slot_inv permits n (drop_slot (env_sem env) (sys_limiter s1), slots_held (task_end env now i t s))"
    using drop_slot_inv [OF ops] held by simp
  have live: "live_slots (task_end env now i t s) =
      (live_slots s)(task_ip_slot t := live_slots s (task_ip_slot t) - 1)"
    using live_slots_del(2) [OF fin t] s1
    by (simp add: live_slots_def task_end_def Let_def s1_def [symmetric])
  have "ip_inv (ip_op_step (OpDrop (task_ip_slot t)) (sys_ip s, live_slots s))"
    by (rule ip_inv_step [OF sys_invD(5) [OF inv]])
  then have ip: "ip_inv (drop_ip_slot (task_ip_slot t) (sys_ip s), live_slots (task_end env now i t s))"
    using live_slots_del(1) [OF fin t] live by simp
  have gauges: "guard_gauge k (sys_stats s1) = of_nat (tcount (guarded k) ((sys_tasks s)(i := None)))" for k
  proof -
    have "guard_gauge k (sys_stats s1) + of_bool (guarded k t)
        = of_nat (tcount (guarded k) ((sys_tasks s)(i := None))) + of_bool (guarded k t)"
      using gauge1 [of k] sys_invD(4) [OF inv, of k] tcount_del [OF fin t, of "guarded k"] by simp
    then show ?thesis by (simp only: add_right_cancel)
  qed
  have wf: "tasks_wf (task_end env now i t s)"
    using inv s1 by (simp add: sys_inv_def tasks_wf_def task_end_def Let_def s1_def [symmetric])
  show ?thesis
    using slots ip wf gauges sys_invD(6,7) [OF inv] s1
    by (simp add: sys_inv_def pending_ok_def gauges_inv_def task_end_def Let_def s1_def [symmetric])
qed

lemma janitor_tick_inv [inv_intros]:
  "sys_inv permits n s \<Longrightarrow> sys_inv permits n (janitor_tick now s)"
  unfolding janitor_tick_def by (rule rate_update_inv) (simp_all add: rate_sane_sweep sys_invD(6))

lemma sys_inv_cong:
  assumes "sys_limiter s' = sys_limiter s" "sys_tasks s' = sys_tasks s" "sys_accept s' = sys_accept s"
    "sys_next s' = sys_next s" "ip_inv (sys_ip s', live_slots s)" "rate_sane (sys_rate s')"
    "pending_ok config_sane s'"
    and "sys_inv permits n s"
  shows "sys_inv permits n s'"
proof -
  have "live_slots s' = live_slots s" by (simp add: live_slots_def assms(2))
  then show ?thesis
    using assms by (simp add: sys_inv_def pending_ok_def tasks_wf_def gauges_inv_def slots_held_def)
qed

lemma config_rate_sane:
  "try_load toml h = Inr cfg \<Longrightarrow> config_sane cfg"
  using try_load_Inr(1) [of toml h cfg]
  by (auto simp: config_sane_def wf_config_def sane_rate_def or_default_def split: option.split)

lemma accept_stop_inv [inv_intros]:
  assumes ops: "semaphore_ok (env_sem env) permits" and inv: "sys_inv permits n s"
  shows "sys_inv permits n (accept_stop env s)"
proof (cases "sys_accept s = Holds_slot")
  case True
  have "sys_inv permits n (give_back_slot env s)" by (rule give_back_slot_inv [OF ops inv True])
  then show ?thesis using True
    by (simp add: accept_stop_def sys_inv_def pending_ok_def tasks_wf_def gauges_inv_def slots_held_def
        live_slots_def give_back_slot_def)
next
  case False
  then show ?thesis using inv
    by (simp add: accept_stop_def sys_inv_def pending_ok_def tasks_wf_def gauges_inv_def slots_held_def
        live_slots_def)
qed

lemma reload_load_inv [inv_intros]:
  assumes inv: "sys_inv permits n s"
  shows "sys_inv permits n (snd (reload_load env h p s))"
proof (cases "try_load (env_toml env) h")
  case (Inl e)
  then show ?thesis using inv by (simp add: reload_load_def)
next
  case (Inr cfg)
  have "sys_inv permits n (s\<lparr>sys_reload := Loaded cfg key\<rparr>)" for key
    by (rule sys_inv_cong [OF _ _ _ _ _ _ _ inv])
      (use sys_invD(5,6) [OF inv] in \<open>simp_all add: pending_ok_def config_rate_sane [OF Inr]\<close>)
  then show ?thesis using inv Inr by (simp add: reload_load_def Let_def split: sum.split)
qed

lemma reload_next_inv [inv_intros]:
  assumes inv: "sys_inv permits n s"
  shows "sys_inv permits n (reload_next env s)"
proof (rule sys_inv_cong [OF _ _ _ _ _ _ _ inv])
  have "ip_inv (ip_set_limit m (sys_ip s), live_slots s)" for m
    using ip_inv_step [OF sys_invD(5) [OF inv], of "OpSetLimit m"] by simp
  then show "ip_inv (sys_ip (reload_next env s), live_slots s)"
    using sys_invD(5) [OF inv] by (simp add: reload_next_def split: reload_phase.split sum.split)
  show "rate_sane (sys_rate (reload_next env s))"
    using sys_invD(6,7) [OF inv]
    by (auto simp: reload_next_def pending_ok_def config_sane_def rate_sane_stores
        split: reload_phase.split sum.split)
  show "pending_ok config_sane (reload_next env s)"
    using sys_invD(7) [OF inv]
    by (auto simp: reload_next_def pending_ok_def split: reload_phase.split sum.split)
qed (simp_all add: reload_next_def split: reload_phase.split sum.split)


section \<open>Every step and every run\<close>

lemma sys_step_inv:
  assumes step: "sys_step env s e s'" and ops: "semaphore_ok (env_sem env) permits"
    and inv: "sys_inv permits n s"
  shows "sys_inv permits n s'"
  using step
proof cases
  case acquire
  then show ?thesis using accept_acquire_inv [OF ops inv] by blast
next
  case accept_error
  then show ?thesis by (simp add: accept_error_def give_back_slot_inv [OF ops inv])
next
  case (accept now stream peer)
  then show ?thesis by (simp add: accept_ok_inv [OF ops inv])
next
  case (start i stream slot now)
  then show ?thesis by (simp add: task_start_inv [OF inv])
next
  case (body i sv slot)
  then show ?thesis by (simp add: task_body_inv [OF inv])
next
  case (finish i t now)
  then show ?thesis by (simp add: task_end_inv [OF ops inv])
next
  case (sweep now)
  then show ?thesis by (simp add: janitor_tick_inv [OF inv])
next
  case (reload h p)
  then show ?thesis by (simp add: reload_load_inv [OF inv])
next
  case reload_next
  then show ?thesis by (simp add: reload_next_inv [OF inv])
next
  case watcher_ends
  show ?thesis unfolding watcher_ends
    by (rule sys_inv_cong [OF _ _ _ _ _ _ _ inv])
      (use sys_invD(5,6) [OF inv] in \<open>simp_all add: pending_ok_def\<close>)
next
  case shutdown
  then show ?thesis by (simp add: accept_stop_inv [OF ops inv])
qed

lemma sys_run_inv:
  "sys_run env s es s' \<Longrightarrow> semaphore_ok (env_sem env) permits \<Longrightarrow> sys_inv permits n s \<Longrightarrow>
    sys_inv permits n s'"
  by (induction rule: sys_run.induct) (auto intro: sys_step_inv)

lemma startup_Inr:
  assumes "startup env h p dirs install_ok bind_ok wall now = Inr s"
  obtains cfg where "try_load (env_toml env) h = Inr cfg" "sys_config s = cfg"
    "sys_limiter s = connection_limiter_new (env_sem env) (max_connections cfg) (new_stats now)"
    "sys_ip s = ip_limiter_new (or_default (max_connections_per_ip cfg) 0)"
    "sys_rate s = rate_limiter_new (or_default (connection_rate_per_ip cfg) (Fin 0))
       (or_default (connection_burst_per_ip cfg) 10)"
    "sys_tasks s = Map.empty" "sys_accept s = Needs_slot" "sys_next s = 0" "sys_reload s = Watching"
    "sys_metrics s = map_option (\<lambda>addr. (addr, cfg)) (metrics_addr cfg)"
    "\<exists>site. router_new (env_versions_ok env) 0 site cfg = Inr (sys_router s) \<and>
      site_try_load (http_date (env_lib env)) wall (dirs (static_dir cfg)) = Inr site"
    "build_cert_resolver p cfg = Inr (sys_resolver s)"
  using assms by (auto simp: startup_def rbind_Inr_iff Let_def)

lemma startup_inv:
  assumes "startup env h p dirs install_ok bind_ok wall now = Inr s" and "semaphore_ok (env_sem env) permits"
    and "unat (max_connections (sys_config s)) \<le> MAX_PERMITS"
  shows "sys_inv permits (unat (max_connections (sys_config s))) s"
proof -
  obtain cfg where cfg: "try_load (env_toml env) h = Inr cfg" and s: "sys_config s = cfg"
    "sys_limiter s = connection_limiter_new (env_sem env) (max_connections cfg) (new_stats now)"
    "sys_ip s = ip_limiter_new (or_default (max_connections_per_ip cfg) 0)"
    "sys_rate s = rate_limiter_new (or_default (connection_rate_per_ip cfg) (Fin 0))
       (or_default (connection_burst_per_ip cfg) 10)"
    "sys_tasks s = Map.empty" "sys_accept s = Needs_slot" "sys_next s = 0" "sys_reload s = Watching"
    using assms(1) by (rule startup_Inr)
  have live: "live_slots s = (\<lambda>_. 0)" and held: "slots_held s = 0"
    by (simp_all add: live_slots_def slots_held_def s fun_eq_iff)
  have "connections (new_stats now) = 0" by (simp add: new_stats_def)
  then have "slot_inv permits (unat (max_connections cfg)) (sys_limiter s, 0)"
    using slot_inv_new [OF assms(2)] assms(3) by (simp add: s)
  moreover have "gauges_inv s"
    by (simp add: gauges_inv_def s connection_limiter_new_def guard_gauge_def new_stats_def
        split: route_kind.split)
  ultimately show ?thesis
    using ip_inv_new rate_sane_new [OF config_rate_sane [OF cfg, unfolded config_sane_def]] live held
    by (simp add: sys_inv_def pending_ok_def tasks_wf_def s)
qed


section \<open>The IP limiter sees a history\<close>

text \<open>
  What a step of the process does to the IP limiter and the tasks it counts is one operation of
  the histories of \<open>Ip_Limiter\<close>, or nothing; only a reload that is being applied sets a limit.
\<close>

definition ip_evolves ::
  "('cert, 'skey, 's, 'sem) system \<Rightarrow> ip_state \<Rightarrow> ip_state \<Rightarrow> bool" where
  "ip_evolves s x y \<longleftrightarrow>
     y = x \<or>
     (\<exists>op. y = ip_op_step op x \<and>
       (\<forall>n. op = OpSetLimit n \<longrightarrow>
          (\<exists>cfg. pending (sys_reload s) = Some cfg \<and> n = or_default (max_connections_per_ip cfg) 0)))"

lemma ip_evolves_same: "y = x \<Longrightarrow> ip_evolves s x y"
  by (simp add: ip_evolves_def)

lemma ip_evolves_op: "y = ip_op_step op x \<Longrightarrow> (\<And>n. op \<noteq> OpSetLimit n) \<Longrightarrow> ip_evolves s x y"
  by (auto simp: ip_evolves_def)

lemma live_slots_cong: "sys_tasks s' = sys_tasks s \<Longrightarrow> live_slots s' = live_slots s"
  by (simp add: live_slots_def)

lemma ip_evolves_frame:
  assumes "sys_ip s' = sys_ip s" "sys_tasks s' = sys_tasks s"
  shows "ip_evolves s (sys_ip s, live_slots s) (sys_ip s', live_slots s')"
  using assms(1) live_slots_cong [OF assms(2)] by (simp add: ip_evolves_same)

lemma live_slots_moved:
  "finite (dom (sys_tasks s)) \<Longrightarrow> sys_tasks s i = Some t \<Longrightarrow> task_ip_slot t' = task_ip_slot t \<Longrightarrow>
    sys_tasks s' = (sys_tasks s)(i \<mapsto> t') \<Longrightarrow> live_slots s' = live_slots s"
  by (simp add: live_slots_def tcount_same)

lemma accept_ok_ip:
  assumes inv: "sys_inv permits n s"
  shows "ip_evolves s (sys_ip s, live_slots s)
    (sys_ip (accept_ok env now stream peer s), live_slots (accept_ok env now stream peer s))"
proof -
  obtain allowed rate' where rate: "allow now (sa_ip peer) (sys_rate s) = (allowed, rate')" by fastforce
  obtain ip_slot ip' where ip: "try_acquire_slot (sa_ip peer) (sys_ip s) = (ip_slot, ip')" by fastforce
  show ?thesis
  proof (cases allowed)
    case False
    then show ?thesis using rate
      by (intro ip_evolves_frame) (simp_all add: accept_ok_def give_back_slot_def)
  next
    case True
    show ?thesis
    proof (cases ip_slot)
      case None
      have "live_slots (accept_ok env now stream peer s) = live_slots s"
        using rate ip True None by (intro live_slots_cong) (simp add: accept_ok_def give_back_slot_def)
      then show ?thesis using rate ip True None
        by (intro ip_evolves_op [of _ "OpAcquire (sa_ip peer)"])
          (simp_all add: accept_ok_def give_back_slot_def)
    next
      case (Some slot)
      have slot: "slot = sa_ip peer"
        using Some ip by (auto simp: try_acquire_slot_def Let_def split: if_splits)
      have "live_slots (accept_ok env now stream peer s) =
          live_slots (set_task (sys_next s) (Some (Spawned stream slot)) s)"
        using rate ip True Some by (intro live_slots_cong) (simp add: accept_ok_def)
      also have "\<dots> = (live_slots s)(slot := Suc (live_slots s slot))"
        using live_slots_new [OF sys_invD(1) [OF inv] sys_invD(2) [OF inv], of "Spawned stream slot"] by simp
      finally show ?thesis using rate ip True Some slot
        by (intro ip_evolves_op [of _ "OpAcquire (sa_ip peer)"]) (simp_all add: accept_ok_def)
    qed
  qed
qed

lemma task_end_ip:
  assumes inv: "sys_inv permits n s" and t: "sys_tasks s i = Some t"
  shows "ip_evolves s (sys_ip s, live_slots s)
    (sys_ip (task_end env now i t s), live_slots (task_end env now i t s))"
proof -
  note fin = sys_invD(1) [OF inv]
  have ip: "sys_ip (task_end env now i t s) = drop_ip_slot (task_ip_slot t) (sys_ip s)"
    by (cases "task_guard t") (simp_all add: task_end_def Let_def)
  have "sys_tasks (task_end env now i t s) = sys_tasks (set_task i None s)"
    by (cases "task_guard t") (simp_all add: task_end_def Let_def)
  then have "live_slots (task_end env now i t s) = live_slots (set_task i None s)"
    by (rule live_slots_cong)
  then have "live_slots (task_end env now i t s) =
      (live_slots s)(task_ip_slot t := live_slots s (task_ip_slot t) - 1)"
    by (simp only: live_slots_del(2) [OF fin t])
  then have "(sys_ip (task_end env now i t s), live_slots (task_end env now i t s)) =
      ip_op_step (OpDrop (task_ip_slot t)) (sys_ip s, live_slots s)"
    using ip live_slots_del(1) [OF fin t] by (simp only: ip_op_step.simps if_False)
  then show ?thesis by (rule ip_evolves_op) simp
qed

lemma reload_next_ip:
  "ip_evolves s (sys_ip s, live_slots s) (sys_ip (reload_next env s), live_slots (reload_next env s))"
proof -
  have live: "live_slots (reload_next env s) = live_slots s"
    by (rule live_slots_cong) (simp add: reload_next_def split: reload_phase.split sum.split)
  show ?thesis
  proof (cases "sys_reload s")
    case (Routes_swapped cfg)
    have "(sys_ip (reload_next env s), live_slots (reload_next env s)) =
        ip_op_step (OpSetLimit (or_default (max_connections_per_ip cfg) 0)) (sys_ip s, live_slots s)"
      using live Routes_swapped by (simp add: reload_next_def)
    then show ?thesis using Routes_swapped unfolding ip_evolves_def by (auto simp del: ip_op_step.simps)
  qed (use live in \<open>simp_all add: ip_evolves_same reload_next_def split: sum.split\<close>)
qed

lemma sys_step_ip:
  assumes step: "sys_step env s e s'" and inv: "sys_inv permits n s"
  shows "ip_evolves s (sys_ip s, live_slots s) (sys_ip s', live_slots s')"
  using step
proof cases
  case acquire
  then show ?thesis
    by (intro ip_evolves_frame) (auto simp: accept_acquire_def split: option.splits)
next
  case accept_error
  then show ?thesis
    by (intro ip_evolves_frame) (simp_all add: accept_error_def give_back_slot_def)
next
  case (accept now stream peer)
  then show ?thesis using accept_ok_ip [OF inv] by simp
next
  case (start i stream slot now)
  have "live_slots (task_start env now i stream slot s) = live_slots s"
    using start by (intro live_slots_moved [OF sys_invD(1) [OF inv] start(3)])
      (auto simp: task_start_def Let_def case_prod_unfold split: started.split)
  moreover have "sys_ip (task_start env now i stream slot s) = sys_ip s"
    by (simp add: task_start_def Let_def case_prod_unfold)
  ultimately show ?thesis using start by (intro ip_evolves_same) simp
next
  case (body i sv slot)
  have "live_slots (task_body env i sv slot s) = live_slots s"
    by (rule live_slots_moved [OF sys_invD(1) [OF inv] body(3)])
      (simp_all add: task_body_def Let_def case_prod_unfold)
  moreover have "sys_ip (task_body env i sv slot s) = sys_ip s"
    by (simp add: task_body_def Let_def case_prod_unfold)
  ultimately show ?thesis using body by (intro ip_evolves_same) simp
next
  case (finish i t now)
  then show ?thesis using task_end_ip [OF inv] by simp
next
  case (sweep now)
  then show ?thesis by (intro ip_evolves_frame) (simp_all add: janitor_tick_def)
next
  case (reload h p)
  then show ?thesis
    by (intro ip_evolves_frame) (simp_all add: reload_load_def Let_def split: sum.split)
next
  case reload_next
  then show ?thesis using reload_next_ip by simp
next
  case watcher_ends
  then show ?thesis by (intro ip_evolves_frame) simp_all
next
  case shutdown
  then show ?thesis by (intro ip_evolves_frame) (simp_all add: accept_stop_def give_back_slot_def)
qed

text \<open>A reload applies what a SIGHUP has loaded.\<close>

lemma pending_step:
  assumes "sys_step env s e s'" "pending (sys_reload s') = Some cfg"
  shows "pending (sys_reload s) = Some cfg \<or> (\<exists>h p. e = Ev_reload h p \<and> try_load (env_toml env) h = Inr cfg)"
  using assms
proof cases
  case (finish i t now)
  then show ?thesis using assms(2) by (simp add: task_end_def Let_def split: option.splits)
next
  case (accept now stream peer)
  then show ?thesis using assms(2)
    by (auto simp: accept_ok_def give_back_slot_def case_prod_unfold Let_def split: option.splits if_splits)
qed (auto simp: accept_acquire_def accept_error_def give_back_slot_def accept_stop_def task_start_def
    task_body_def janitor_tick_def reload_load_def reload_next_def case_prod_unfold Let_def
    split: option.splits sum.splits if_splits reload_phase.splits)


text \<open>No reload of a run disables the limit or raises it above \<open>m\<close>.\<close>

definition keeps_limit :: "nat \<Rightarrow> service_config \<Rightarrow> bool" where
  "keeps_limit m cfg \<longleftrightarrow>
     or_default (max_connections_per_ip cfg) 0 \<noteq> 0 \<and> unat (or_default (max_connections_per_ip cfg) 0) \<le> m"

definition reloads_limit ::
  "('s, 'e, 'conn, 'sem) env \<Rightarrow> nat \<Rightarrow> ('cert, 'der, 'skey, 's) event list \<Rightarrow> bool" where
  "reloads_limit env m es \<longleftrightarrow>
     (\<forall>h p cfg. Ev_reload h p \<in> set es \<longrightarrow> try_load (env_toml env) h = Inr cfg \<longrightarrow> keeps_limit m cfg)"

lemma ip_evolves_exact:
  assumes "ip_evolves s x y" "ip_inv x" "ip_exact m x" "pending_ok (keeps_limit m) s"
  shows "ip_exact m y"
  using assms(1) unfolding ip_evolves_def
proof (elim disjE exE conjE)
  fix op
  assume op: "y = ip_op_step op x"
    and lim: "\<forall>n. op = OpSetLimit n \<longrightarrow>
      (\<exists>cfg. pending (sys_reload s) = Some cfg \<and> n = or_default (max_connections_per_ip cfg) 0)"
  have "limits_in m [op]"
    using lim assms(4) by (fastforce simp: limits_in_def pending_ok_def keeps_limit_def)
  then show ?thesis unfolding op by (rule ip_exact_step [OF assms(2,3)])
qed (use assms(3) in simp)

lemma sys_run_ip_exact:
  "sys_run env s es s' \<Longrightarrow> semaphore_ok (env_sem env) permits \<Longrightarrow> sys_inv permits n s \<Longrightarrow>
    reloads_limit env m es \<Longrightarrow> pending_ok (keeps_limit m) s \<Longrightarrow> ip_exact m (sys_ip s, live_slots s) \<Longrightarrow>
    ip_exact m (sys_ip s', live_slots s')"
proof (induction rule: sys_run.induct)
  case (run_nil s)
  then show ?case by simp
next
  case (run_step s e s1 es s2)
  have inv1: "sys_inv permits n s1"
    by (rule sys_step_inv [OF run_step.hyps(1) run_step.prems(1,2)])
  have "ip_exact m (sys_ip s1, live_slots s1)"
    by (rule ip_evolves_exact [OF sys_step_ip [OF run_step.hyps(1) run_step.prems(2)]
          sys_invD(5) [OF run_step.prems(2)] run_step.prems(5,4)])
  moreover have "reloads_limit env m es"
    using run_step.prems(3) by (auto simp: reloads_limit_def)
  moreover have "pending_ok (keeps_limit m) s1"
    using pending_step [OF run_step.hyps(1)] run_step.prems(3,4)
    by (fastforce simp: pending_ok_def reloads_limit_def)
  ultimately show ?case using run_step.IH run_step.prems(1) inv1 by blast
qed

lemma startup_ip_exact:
  assumes "startup env h p dirs install_ok bind_ok wall now = Inr s"
    and "or_default (max_connections_per_ip (sys_config s)) 0 \<noteq> 0"
    and "unat (or_default (max_connections_per_ip (sys_config s)) 0) \<le> m"
  shows "ip_exact m (sys_ip s, live_slots s)" "pending_ok (keeps_limit m) s"
proof -
  obtain cfg where s: "sys_config s = cfg"
    "sys_ip s = ip_limiter_new (or_default (max_connections_per_ip cfg) 0)" "sys_tasks s = Map.empty"
      and "sys_reload s = Watching"
    by (rule startup_Inr [OF assms(1)]) blast
  have "live_slots s = (\<lambda>_. 0)" by (simp add: live_slots_def s)
  then show "ip_exact m (sys_ip s, live_slots s)" using ip_exact_new assms(2,3) by (simp add: s)
  show "pending_ok (keeps_limit m) s" by (simp add: pending_ok_def \<open>sys_reload s = Watching\<close>)
qed

end
