(* ===== verification/Rate_Bound.thy ===== *)
theory Rate_Bound
  imports Rate_Limiter
begin

text \<open>
  How many connections \<open>src/rate_limiter.rs\<close> grants an address in a window of time, whatever the
  bucket held at its start, whoever else connects and whenever the janitor sweeps. The proof is an
  amortised one: the tokens of the bucket pay for the grants, the refill rate earns tokens, and
  every call may gain one rounding of the sum and two of the subnormal range (\<open>slack\<close>).
\<close>


section \<open>One refill\<close>

text \<open>What the rate earns in a time, three relative roundings included, and the absolute error of one
  call.\<close>


definition earned :: "rate_limiter \<Rightarrow> duration \<Rightarrow> rat" where
  "earned rl d = (case refill_per_sec rl of Fin r \<Rightarrow> (1 + half_ulp) ^ 3 * r * secs d | _ \<Rightarrow> 0)"

definition slack :: "rate_limiter \<Rightarrow> rat" where
  "slack rl = (of_nat (unat (capacity rl)) + 1) * half_ulp"

lemma slack_nonneg: "0 \<le> slack rl"
  unfolding slack_def
  by (intro mult_nonneg_nonneg add_nonneg_nonneg of_nat_0_le_iff) (simp_all add: half_ulp_def)

lemma earned_add: "earned rl (d + e) = earned rl d + earned rl e"
  by (simp add: earned_def secs_add algebra_simps split: f64.split)

lemma earned_nonneg: "rate_on rl \<Longrightarrow> 0 \<le> earned rl d"
  by (erule rate_onE) (simp add: earned_def half_ulp_def)

lemma cap_exact: "unat (capacity rl) \<le> 2 ^ 53 \<Longrightarrow> cap_f64 rl = Fin (of_nat (unat (capacity rl)))"
  by (simp add: cap_f64_def f64_of_nat_exact)

lemma refilled_value:
  assumes "rate_on rl" "f64_nonneg (tokens b)" "unat (capacity rl) \<le> 2 ^ 53"
  obtains t where "refilled rl now b = Fin t" "0 \<le> t" "t \<le> of_nat (unat (capacity rl))" "rnd t = t"
proof -
  from assms(1) obtain r where r: "refill_per_sec rl = Fin r" "0 < r" by (rule rate_onE)
  let ?inc = "f64_mul (as_secs_f64 (saturating_duration_since now (last_refill b))) (Fin r)"
  have inc: "f64_nonneg ?inc" using r(2) by (intro f64_mul_nonneg as_secs_f64_nonneg)
  have "f64_add (tokens b) ?inc = Infinity \<or> (\<exists>x. f64_add (tokens b) ?inc = Fin x \<and> rnd x = x)"
  proof (rule f64_nonneg_cases [OF assms(2)]; rule f64_nonneg_cases [OF inc])
    fix x y assume e: "tokens b = Fin x" "?inc = Fin y" "0 \<le> x" "0 \<le> y"
    then have "0 \<le> x + y" by simp
    then show ?thesis by (rule f64_of_rat_cases) (use e in \<open>auto simp: rnd_idem\<close>)
  qed simp_all
  then have "\<exists>t. refilled rl now b = Fin t \<and> rnd t = t"
    using assms(3) by (auto simp: refilled_def Let_def r cap_exact f64_min_def rnd_of_nat [OF assms(3)] simp del: of_nat_unat)
  moreover have "f64_nonneg (refilled rl now b)" "f64_le (refilled rl now b) (cap_f64 rl)"
    using assms by (simp_all add: refilled_nonneg refilled_le_cap)
  ultimately show ?thesis using that assms(3) by (auto simp: cap_exact)
qed

lemma refilled_upper:
  assumes "rate_on rl" "unat (capacity rl) \<le> 2 ^ 53"
    and "tokens b = Fin k" "0 \<le> k" "now - last_refill b \<le> DURATION_MAX" "refilled rl now b = Fin t"
  shows "t \<le> k + earned rl (now - last_refill b) + slack rl"
proof -
  from assms(1) obtain r where r: "refill_per_sec rl = Fin r" "0 < r" by (rule rate_onE)
  obtain e where e: "as_secs_f64 (now - last_refill b) = Fin e" "0 \<le> e"
    "e \<le> (1 + half_ulp) ^ 2 * secs (now - last_refill b)"
    using assms(5) by (rule as_secs_f64_error)
  let ?C = "of_nat (unat (capacity rl)) :: rat"
  have h: "0 < half_ulp" "half_ulp \<le> 1" by (simp_all add: half_ulp_def)
  have hC: "0 \<le> half_ulp * ?C" using h(1) by (intro mult_nonneg_nonneg of_nat_0_le_iff) simp
  have tC: "t \<le> ?C"
    using assms refilled_le_cap [of rl b now] by (simp add: cap_exact)
  have er: "0 \<le> e * r" using e(2) r(2) by simp
  have "rnd (e * r) \<le> (1 + half_ulp) * (e * r) + half_subnormal"
    using rnd_error [OF er] by (simp add: distrib_right)
  also have "(1 + half_ulp) * (e * r) \<le> (1 + half_ulp) * ((1 + half_ulp) ^ 2 * secs (now - last_refill b) * r)"
    using e(3) r(2) h by (intro mult_left_mono mult_right_mono) simp_all
  also have "\<dots> = earned rl (now - last_refill b)"
    by (simp add: earned_def r power3_eq_cube power2_eq_square ac_simps)
  finally have inc: "rnd (e * r) \<le> earned rl (now - last_refill b) + half_subnormal" by simp
  have C2: "?C \<le> 2 ^ 53" using assms(2) by (metis of_nat_le_iff of_nat_numeral of_nat_power)
  have slack: "half_ulp * ?C + 2 * half_subnormal \<le> slack rl"
    using half_subnormal_bounds(2) by (simp add: slack_def distrib_right)
  show ?thesis using er
  proof (rule f64_of_rat_cases)
    assume "f64_limit \<le> rnd (e * r)"
    then have "?C \<le> rnd (e * r)" using C2 two_pow_exact_le by linarith
    then show ?thesis using tC inc slack assms(4) half_subnormal_bounds(1) hC by linarith
  next
    assume fin: "f64_of_rat (e * r) = Fin (rnd (e * r))"
    let ?s = "k + rnd (e * r)"
    have s: "0 \<le> ?s" using assms(4) er by (simp add: rnd_nonneg)
    show ?thesis
    proof (cases "?s \<le> ?C")
      case False
      then show ?thesis using tC inc slack half_subnormal_bounds(1) hC by linarith
    next
      case True
      have "rnd ?s \<le> ?s + half_ulp * ?s + half_subnormal" using rnd_error [OF s] by simp
      also have "half_ulp * ?s \<le> half_ulp * ?C" using True h(1) by (intro mult_left_mono) simp_all
      finally have up: "rnd ?s \<le> ?s + half_ulp * ?C + half_subnormal" by simp
      have "t \<le> rnd ?s \<or> t \<le> ?C \<and> f64_limit \<le> rnd ?s"
        using assms(6) tC s
        by (rule_tac x = ?s in f64_of_rat_cases)
           (auto simp: refilled_def Let_def saturating_duration_since_def e(1) r(1) fin assms(2,3)
             cap_exact f64_min_def split: if_splits)
      then have "t \<le> rnd ?s" using C2 two_pow_exact_le by linarith
      then show ?thesis using up inc slack by linarith
    qed
  qed
qed


section \<open>Grants in a history\<close>

text \<open>The granted and the attempted calls of an address.\<close>

fun called_by :: "rate_event \<Rightarrow> ip_addr \<Rightarrow> bool" where
  "called_by (Call _ a) ip = (a = ip)"
| "called_by (Sweep _) ip = False"

definition granted :: "ip_addr \<Rightarrow> rate_event list \<Rightarrow> rate_limiter \<Rightarrow> nat" where
  "granted ip es rl =
     length (filter (\<lambda>(e, ok). called_by e ip \<and> ok) (zip (calls_only es) (decisions es rl)))"

definition attempts :: "ip_addr \<Rightarrow> rate_event list \<Rightarrow> nat" where
  "attempts ip es = length (filter (\<lambda>e. called_by e ip) es)"

lemma granted_simps [simp]:
  "granted ip [] rl = 0"
  "granted ip (Call now a # es) rl =
     of_bool (a = ip \<and> fst (allow now a rl)) + granted ip es (snd (allow now a rl))"
  "granted ip (Sweep now # es) rl = granted ip es (sweep now rl)"
  by (simp_all add: granted_def calls_only_def)

lemma attempts_simps [simp]:
  "attempts ip [] = 0"
  "attempts ip (e # es) = of_bool (called_by e ip) + attempts ip es"
  by (simp_all add: attempts_def)

text \<open>At every instant of the window that starts at \<open>t0\<close>, the bucket of \<open>ip\<close> holds at most the
  tokens \<open>B\<close> it had at \<open>t0\<close>, what has been earned since and one rounding.\<close>

definition covered :: "ip_addr \<Rightarrow> instant \<Rightarrow> instant \<Rightarrow> rat \<Rightarrow> rate_limiter \<Rightarrow> bool" where
  "covered ip t0 t1 B rl \<longleftrightarrow> (\<forall>t x. t0 \<le> t \<and> t \<le> t1 \<and> refilled rl t (bucket_or_new rl t ip) = Fin x \<longrightarrow>
     x \<le> B + earned rl (t - t0) + slack rl)"

lemma earned_config [simp]: "earned (snd (allow now a rl)) d = earned rl d"
  by (simp add: earned_def)

lemma slack_config [simp]: "slack (snd (allow now a rl)) = slack rl"
  by (simp add: slack_def)

lemma refilled_config: "refilled (snd (allow now a rl)) = refilled rl"
  by (simp add: refilled_def cap_f64_def fun_eq_iff)

lemma covered_start:
  assumes "rate_on rl" "rate_inv rl" "unat (capacity rl) \<le> 2 ^ 53"
  shows "covered ip t0 t1 (of_nat (unat (capacity rl))) rl"
  unfolding covered_def
proof (intro allI impI, elim conjE)
  fix t x
  assume "refilled rl t (bucket_or_new rl t ip) = Fin x"
  then have "x \<le> of_nat (unat (capacity rl))"
    using refilled_value [OF assms(1) bucket_or_new_nonneg [OF assms(2)] assms(3), of t t ip]
    by (metis f64.inject)
  then show "x \<le> of_nat (unat (capacity rl)) + earned rl (t - t0) + slack rl"
    using earned_nonneg [OF assms(1), of "t - t0"] slack_nonneg [of rl] by linarith
qed

lemma covered_other:
  "a \<noteq> ip \<Longrightarrow> covered ip t0 t1 B rl \<Longrightarrow> t0 \<le> now \<Longrightarrow> covered ip t0 t1 B (snd (allow now a rl))"
  by (auto simp: covered_def refilled_config bucket_or_new_def allow_other cap_f64_def
      split: option.splits)

text \<open>One call of the address: what is granted and what is left are covered by what was there.\<close>

lemma covered_call:
  assumes "rate_on rl" "rate_inv rl" "unat (capacity rl) \<le> 2 ^ 53" "\<not> is_loopback ip"
    and "covered ip t0 t1 B rl" "t0 \<le> now" "now \<le> t1" "t1 - t0 \<le> DURATION_MAX"
  obtains B' where "covered ip now t1 B' (snd (allow now ip rl))"
    "of_bool (fst (allow now ip rl)) + B' \<le> B + earned rl (now - t0) + slack rl" "0 \<le> B'"
proof -
  let ?b = "bucket_or_new rl now ip" and ?rl = "snd (allow now ip rl)" and ?ok = "fst (allow now ip rl)"
  obtain t where t: "refilled rl now ?b = Fin t" "0 \<le> t" "t \<le> of_nat (unat (capacity rl))" "rnd t = t"
    using refilled_value [OF assms(1) bucket_or_new_nonneg [OF assms(2)] assms(3)] by metis
  note on = allow_on [OF assms(1,4) refl, of now, unfolded t(1)]
  have ok: "?ok \<longleftrightarrow> 1 \<le> t" using on(1) by simp
  have C2: "t \<le> 2 ^ 53"
    using t(3) assms(3) by (metis of_nat_le_iff of_nat_numeral of_nat_power order_trans)
  have "f64_sub (Fin t) (Fin 1) = Fin (t - 1)" if "1 \<le> t"
    using that t(4) C2 rnd_minus_1 [of t] two_pow_exact_le by (simp add: f64_sub_def f64_of_rat_small)
  then have b: "buckets ?rl ip = Some \<lparr>tokens = Fin (t - of_bool ?ok), last_refill = now\<rparr>"
    using on(2) ok by simp
  have B': "0 \<le> t - of_bool ?ok" using ok t(2) by simp
  have "covered ip now t1 (t - of_bool ?ok) ?rl"
    unfolding covered_def
  proof (intro allI impI, elim conjE)
    fix u x
    assume u: "now \<le> u" "u \<le> t1" and x: "refilled ?rl u (bucket_or_new ?rl u ip) = Fin x"
    have "u - now \<le> DURATION_MAX" using u assms(6,8) by linarith
    then show "x \<le> t - of_bool ?ok + earned ?rl (u - now) + slack ?rl"
      using refilled_upper [of ?rl "\<lparr>tokens = Fin (t - of_bool ?ok), last_refill = now\<rparr>" _ u x]
        assms(1,3) x b B' by (simp add: bucket_or_new_def)
  qed
  moreover have "t \<le> B + earned rl (now - t0) + slack rl"
    using assms(5-7) t(1) by (simp add: covered_def)
  ultimately show ?thesis using that B' by simp
qed

lemma granted_covered:
  assumes "rate_on rl" "rate_inv rl" "unat (capacity rl) \<le> 2 ^ 53" "\<not> is_loopback ip"
    and "covered ip t0 t1 B rl" "0 \<le> B" "t0 \<le> t1" "t1 - t0 \<le> DURATION_MAX"
    and "calls_only es = es" "sorted (map event_time es)" "\<forall>e \<in> set es. t0 \<le> event_time e \<and> event_time e \<le> t1"
  shows "of_nat (granted ip es rl) \<le> B + earned rl (t1 - t0) + of_nat (attempts ip es) * slack rl"
  using assms
proof (induction es arbitrary: rl t0 B)
  case Nil
  then show ?case by (simp add: earned_nonneg)
next
  case (Cons e es)
  from Cons.prems(9) obtain now a where e: "e = Call now a" and calls: "calls_only es = es"
    by (cases e) (auto simp: calls_only_def filter_id_conv dest: filter_eq_ConsD)
  let ?rl = "snd (allow now a rl)"
  have inv: "rate_on ?rl" "rate_inv ?rl" "unat (capacity ?rl) \<le> 2 ^ 53"
    using Cons.prems(1-3) by (simp_all add: rate_inv_allow)
  have now: "t0 \<le> now" "now \<le> t1" using Cons.prems(11) e by simp_all
  show ?case
  proof (cases "a = ip")
    case False
    have "of_nat (granted ip es ?rl) \<le> B + earned ?rl (t1 - t0) + of_nat (attempts ip es) * slack ?rl"
      using Cons.prems inv calls False now e
      by (intro Cons.IH) (simp_all add: covered_other)
    then show ?thesis using False e by simp
  next
    case True
    obtain B' where B': "covered ip now t1 B' ?rl"
      "of_bool (fst (allow now ip rl)) + B' \<le> B + earned rl (now - t0) + slack rl" "0 \<le> B'"
      using covered_call [OF Cons.prems(1-5) now Cons.prems(8)] True by metis
    have "of_nat (granted ip es ?rl) \<le> B' + earned ?rl (t1 - now) + of_nat (attempts ip es) * slack ?rl"
      using Cons.prems inv calls now e B' by (intro Cons.IH) auto
    moreover have "earned rl (t1 - t0) = earned rl (now - t0) + earned rl (t1 - now)"
      using now by (simp flip: earned_add)
    ultimately show ?thesis using B'(2) True e by (simp add: distrib_right)
  qed
qed


section \<open>The sustained rate\<close>

lemma calls_only_idem [simp]: "calls_only (calls_only es) = calls_only es"
  by (simp add: calls_only_def)

lemma calls_only_window:
  "sorted (map event_time es) \<Longrightarrow> sorted (map event_time (calls_only es))"
  "set (calls_only es) \<subseteq> set es"
  by (auto simp: calls_only_def sorted_filter)

lemma attempts_calls_only [simp]: "attempts ip (calls_only es) = attempts ip es"
proof (induction es)
  case (Cons e es)
  then show ?case by (cases e) (simp_all add: calls_only_def)
qed (simp add: calls_only_def)

lemma granted_calls_only:
  "rate_on rl \<Longrightarrow> rate_inv rl \<Longrightarrow> sorted (map event_time es) \<Longrightarrow>
    granted ip (calls_only es) rl = granted ip es rl"
  unfolding granted_def calls_only_idem
  by (subst (1 2) decisions_without_sweeps) (simp_all add: calls_only_window)

lemma three_roundings: "(1 + half_ulp) ^ 3 \<le> 1 + 1 / 2 ^ 51"
  by (simp add: half_ulp_def power3_eq_cube)

lemma earned_rate:
  "refill_per_sec rl = Fin r \<Longrightarrow> 0 < r \<Longrightarrow> earned rl d \<le> (1 + 1 / 2 ^ 51) * r * secs d"
  using three_roundings by (simp only: earned_def f64.case) (intro mult_right_mono, simp_all)

text \<open>
  In any window of \<open>d\<close> nanoseconds, from any state of the limiter, an address is granted at most its
  burst plus what the rate earns in \<open>d\<close>, up to the rounding errors of binary64: a relative 2^-51 of
  the rate, and (burst + 1) / 2^53 for each attempt. Other clients and the janitor's sweeps make no
  difference.
\<close>

lemma granted_bound:
  assumes "refill_per_sec rl = Fin r" "0 < r" "rate_inv rl" "\<not> is_loopback ip"
    and "unat (capacity rl) \<le> 2 ^ 53" "sorted (map event_time es)"
    and "\<forall>e \<in> set es. t0 \<le> event_time e \<and> event_time e \<le> t0 + d" "d \<le> DURATION_MAX"
  shows "of_nat (granted ip es rl) \<le>
    of_nat (unat (capacity rl)) + (1 + 1 / 2 ^ 51) * r * secs d +
    of_nat (attempts ip es) * ((of_nat (unat (capacity rl)) + 1) / 2 ^ 53)"
proof -
  have on: "rate_on rl" using assms(1,2) by (simp add: rate_on_def)
  have "of_nat (granted ip (calls_only es) rl) \<le>
      of_nat (unat (capacity rl)) + earned rl (t0 + d - t0) + of_nat (attempts ip (calls_only es)) * slack rl"
    using assms(7,8) calls_only_window(2) [of es]
    by (intro granted_covered covered_start on assms(3-5) of_nat_0_le_iff calls_only_idem
        calls_only_window(1) assms(6)) auto
  moreover have "earned rl (t0 + d - t0) \<le> (1 + 1 / 2 ^ 51) * r * secs d"
    using earned_rate [OF assms(1,2)] by simp
  ultimately show ?thesis
    using granted_calls_only [OF on assms(3,6)] by (simp add: slack_def half_ulp_def)
qed

section \<open>Waiting and forgetting\<close>

text \<open>What accrues in a time, rounded, against the exact product.\<close>

lemma accrued_lower:
  assumes "d \<le> DURATION_MAX" "0 < r"
  obtains e where "as_secs_f64 d = Fin e" "0 \<le> e * r" "r * secs d \<le> (1 + 1 / 2 ^ 51) * (e * r)"
proof -
  obtain e where e: "as_secs_f64 d = Fin e" "0 \<le> e" "(1 - half_ulp) ^ 2 * secs d \<le> e"
    using assms(1) by (rule as_secs_f64_error)
  have "1 * (r * secs d) \<le> ((1 + 1 / 2 ^ 51) * (1 - half_ulp) ^ 2) * (r * secs d)"
    using assms(2) by (intro mult_right_mono) (simp_all add: half_ulp_def power2_eq_square)
  also have "\<dots> = (1 + 1 / 2 ^ 51) * r * ((1 - half_ulp) ^ 2 * secs d)" by (simp add: ac_simps)
  also have "\<dots> \<le> (1 + 1 / 2 ^ 51) * r * e"
    using assms(2) e(3) by (intro mult_left_mono) simp_all
  finally show ?thesis using that [OF e(1)] e(2) assms(2) by (simp add: ac_simps)
qed

lemma token_earned:
  assumes "0 < r" "d \<le> DURATION_MAX" "1 + 1 / 2 ^ 51 \<le> r * secs d"
  shows "f64_le (Fin 1) (f64_mul (as_secs_f64 d) (Fin r))"
proof -
  obtain e where e: "as_secs_f64 d = Fin e" "0 \<le> e * r" "r * secs d \<le> (1 + 1 / 2 ^ 51) * (e * r)"
    using assms(2,1) by (rule accrued_lower)
  have "(1 + 1 / 2 ^ 51) * 1 \<le> (1 + 1 / 2 ^ 51) * (e * r)" using order_trans [OF assms(3) e(3)] by simp
  then have "1 \<le> e * r" by (rule mult_left_le_imp_le) simp
  then have "f64_le (f64_of_rat 1) (f64_of_rat (e * r))" by (intro f64_of_rat_mono) simp_all
  then show ?thesis using e(1) by (simp add: f64_of_rat_1)
qed

text \<open>
  C26: A client whose rate has earned a token since its bucket was last refilled (1 + 2^-51 of one,
  for the roundings) is granted its next connection, whatever the bucket held.
\<close>

theorem allow_after_waiting:
  assumes "refill_per_sec rl = Fin r" "0 < r" "rate_inv rl" "1 \<le> unat (capacity rl)"
    and "buckets rl ip = Some b" "now - last_refill b \<le> DURATION_MAX"
    and "1 + 1 / 2 ^ 51 \<le> r * secs (now - last_refill b)"
  shows "fst (allow now ip rl)"
  by (rule allow_after_wait [OF _ assms(3,4,5)])
    (use assms(1,2) token_earned [OF assms(2,6,7)] in \<open>simp_all add: rate_on_def saturating_duration_since_def\<close>)

lemma secs_seconds: "secs (n * 1000000000) = of_nat n"
  by (simp add: secs_def NANOS_PER_SEC_def)

text \<open>The sample limiter with an empty bucket.\<close>

definition drained_limiter :: rate_limiter where
  "drained_limiter = sample_limiter\<lparr>buckets := [sample_ip \<mapsto> \<lparr>tokens = Fin 0, last_refill = 0\<rparr>]\<rparr>"

lemma drained_limiter_simps:
  "refill_per_sec drained_limiter = Fin 1" "rate_inv drained_limiter" "unat (capacity drained_limiter) = 2"
  "buckets drained_limiter sample_ip = Some \<lparr>tokens = Fin 0, last_refill = 0\<rparr>"
  by (simp_all add: drained_limiter_def sample_limiter_def rate_limiter_new_def rate_inv_def)

lemma allow_after_waiting_witness: "fst (allow (2 * 1000000000) sample_ip drained_limiter)"
proof (rule allow_after_waiting [OF drained_limiter_simps(1)])
  show "1 + 1 / 2 ^ 51 \<le> 1 * secs (2 * 1000000000 - last_refill \<lparr>tokens = Fin 0, last_refill = 0\<rparr>)"
    using secs_seconds [of 2] by simp
qed (simp_all add: drained_limiter_simps DURATION_MAX_def NANOS_PER_SEC_def)

text \<open>
  C27: The janitor keeps the table small: a bucket that a sweep leaves was used within the time in
  which the rate fills an empty one (burst / rate seconds, up to the roundings), so every address
  that has been idle for longer is forgotten.
\<close>

theorem sweep_keeps_recent:
  assumes "refill_per_sec rl = Fin r" "0 < r" "rate_inv rl" "unat (capacity rl) \<le> 2 ^ 53"
    and "buckets (sweep now rl) ip = Some b" "now - last_refill b \<le> DURATION_MAX"
  shows "r * secs (now - last_refill b) < (of_nat (unat (capacity rl)) + 1 / 2 ^ 53) * (1 + 1 / 2 ^ 50)"
proof -
  let ?C = "of_nat (unat (capacity rl)) :: rat"
  obtain e where e: "as_secs_f64 (now - last_refill b) = Fin e" "0 \<le> e * r"
    "r * secs (now - last_refill b) \<le> (1 + 1 / 2 ^ 51) * (e * r)"
    using assms(6,2) by (rule accrued_lower)
  have b: "buckets rl ip = Some b" "f64_less (refilled rl now b) (Fin ?C)"
    using assms(4,5) by (auto simp: sweep_def map_retain_def cap_exact split: option.splits if_splits)
  have on: "rate_on rl" using assms(1,2) by (simp add: rate_on_def)
  have nn: "f64_nonneg (tokens b)" using assms(3) b(1) by (auto simp: rate_inv_def)
  let ?x = "f64_of_rat (e * r)"
  have "f64_le (f64_add (Fin 0) ?x) (f64_add (tokens b) ?x)"
    using nn e(2) by (intro f64_add_mono f64_le_refl f64_of_rat_nonneg) (simp_all add: f64_nonneg_def)
  moreover have "refilled rl now b = f64_min (f64_add (tokens b) ?x) (Fin ?C)"
    using assms(1,4) e(1) by (simp add: refilled_def saturating_duration_since_def cap_exact)
  ultimately have "f64_less (f64_add (Fin 0) ?x) (Fin ?C)"
    using b(2) nn
    by (cases "f64_add (Fin 0) ?x"; cases "f64_add (tokens b) ?x") (auto simp: f64_min_def split: if_splits)
  then have "rnd (e * r) < ?C"
    by (rule_tac f64_of_rat_cases [OF e(2)])
       (simp_all add: f64_of_rat_small rnd_nonneg rnd_idem e(2) del: of_nat_unat)
  moreover have "e * r - rnd (e * r) \<le> half_ulp * (e * r) + half_subnormal"
    using rnd_error [OF e(2)] by linarith
  ultimately have "(1 - half_ulp) * (e * r) < ?C + half_ulp"
    using half_subnormal_bounds by (simp add: left_diff_distrib del: of_nat_unat)
  then have "(1 + 1 / 2 ^ 50) * ((1 - half_ulp) * (e * r)) < (1 + 1 / 2 ^ 50) * (?C + half_ulp)"
    by (intro mult_strict_left_mono) simp_all
  moreover have "(1 + 1 / 2 ^ 51) * (e * r) \<le> ((1 + 1 / 2 ^ 50) * (1 - half_ulp)) * (e * r)"
    using e(2) by (intro mult_right_mono) (simp_all add: half_ulp_def)
  ultimately have "(1 + 1 / 2 ^ 51) * (e * r) < (1 + 1 / 2 ^ 50) * (?C + half_ulp)"
    by (simp only: mult.assoc)
  then have "r * secs (now - last_refill b) < (1 + 1 / 2 ^ 50) * (?C + half_ulp)"
    using e(3) by (rule le_less_trans [rotated])
  then show ?thesis by (simp only: half_ulp_def mult.commute)
qed

lemma one_second: "as_secs_f64 1000000000 = Fin 1"
  using f64_of_nat_exact [of 1] f64_add_0 [of 1] by (simp add: as_secs_f64_def NANOS_PER_SEC_def)

lemma sweep_keeps_recent_witness:
  "buckets (sweep 1000000000 drained_limiter) sample_ip = Some \<lparr>tokens = Fin 0, last_refill = 0\<rparr> \<and>
   secs 1000000000 < (2 + 1 / 2 ^ 53) * (1 + 1 / 2 ^ 50)"
proof -
  have cap: "cap_f64 drained_limiter = Fin 2"
    using cap_exact [of drained_limiter] by (simp add: drained_limiter_def sample_limiter_def rate_limiter_new_def)
  have "refilled drained_limiter 1000000000 \<lparr>tokens = Fin 0, last_refill = 0\<rparr> = Fin 1"
    by (simp add: refilled_def saturating_duration_since_def one_second drained_limiter_simps
        f64_of_rat_1 cap f64_min_def)
  then have kept: "buckets (sweep 1000000000 drained_limiter) sample_ip = Some \<lparr>tokens = Fin 0, last_refill = 0\<rparr>"
    by (simp add: sweep_def map_retain_def drained_limiter_simps cap)
  then show ?thesis
    using sweep_keeps_recent [OF drained_limiter_simps(1) _ drained_limiter_simps(2) _ kept]
    by (simp add: drained_limiter_simps DURATION_MAX_def NANOS_PER_SEC_def)
qed

end
