(* ===== verification/System_Runs.thy ===== *)
theory System_Runs
  imports System_Inv Rate_Bound
begin

text \<open>
  Runs of the process (\<open>src/main.rs\<close>): what a run never changes, the snapshots that connections in
  flight are served under, what the rate limit admits, and the drain after a shutdown. A fact that every step keeps is lifted to
  runs by \<open>sys_run_keeps\<close>.
\<close>

section \<open>Runs\<close>

lemma sys_run_append:
  "sys_run env s es s' \<Longrightarrow> sys_run env s' fs s'' \<Longrightarrow> sys_run env s (es @ fs) s''"
  by (induction rule: sys_run.induct) (auto intro: sys_run.intros)

lemma sys_run_snoc: "sys_run env s es s' \<Longrightarrow> sys_step env s' e s'' \<Longrightarrow> sys_run env s (es @ [e]) s''"
  by (rule sys_run_append) (auto intro: sys_run.intros)

lemma sys_run_keeps:
  assumes "sys_run env s es s'" and "Q s"
    and "\<And>s e s'. e \<in> set es \<Longrightarrow> Q s \<Longrightarrow> sys_step env s e s' \<Longrightarrow> Q s'"
  shows "Q s'"
  using assms
proof (induction rule: sys_run.induct)
  case (run_nil s)
  then show ?case by simp
next
  case (run_step s e s1 es s2)
  have "Q s1" by (rule run_step.prems(2) [OF _ run_step.prems(1) run_step.hyps(1)]) simp
  then show ?case by (rule run_step.IH) (rule run_step.prems(2); simp)
qed

text \<open>What the handlers other than the accept loop's and the tasks' do to the tasks: nothing.\<close>

lemmas handler_defs = accept_acquire_def accept_error_def give_back_slot_def accept_stop_def
  accept_ok_def task_start_def task_body_def task_end_def janitor_tick_def reload_load_def
  reload_next_def case_prod_unfold Let_def

lemma step_metrics: "sys_step env s e s' \<Longrightarrow> sys_metrics s' = sys_metrics s"
proof (induction rule: sys_step.induct)
  case (finish s i t now)
  show ?case by (simp add: handler_defs split: option.split)
qed (auto simp: handler_defs split: option.splits sum.splits if_splits reload_phase.splits)

lemma run_metrics: "sys_run env s es s' \<Longrightarrow> sys_metrics s' = sys_metrics s"
  by (induction rule: sys_run.induct) (simp_all add: step_metrics)


lemma startup_metrics:
  assumes "startup env h p dirs install_ok bind_ok wall now = Inr s"
  shows "sys_metrics s = map_option (\<lambda>addr. (addr, sys_config s)) (metrics_addr (sys_config s))"
    and "sys_metrics s = Some (addr, cfg) \<Longrightarrow> is_loopback (sa_ip addr)"
proof -
  obtain cfg' where cfg: "try_load (env_toml env) h = Inr cfg'" "sys_config s = cfg'"
    "sys_metrics s = map_option (\<lambda>addr. (addr, cfg')) (metrics_addr cfg')"
    by (rule startup_Inr [OF assms]) blast
  then show "sys_metrics s = map_option (\<lambda>addr. (addr, sys_config s)) (metrics_addr (sys_config s))" by simp
  show "is_loopback (sa_ip addr)" if "sys_metrics s = Some (addr, cfg)"
    using that cfg try_load_Inr(1) [OF cfg(1)] by (auto simp: wf_config_def)
qed


section \<open>The site\<close>

text \<open>The site that was loaded at startup is the one every fallback connection is served from; a reload
  swaps the routes and the settings, not the site.\<close>

lemma step_site: "sys_step env s e s' \<Longrightarrow> r_site (sys_router s') = r_site (sys_router s)"
proof (induction rule: sys_step.induct)
  case (finish s i t now)
  show ?case by (simp add: handler_defs split: option.split)
qed (auto simp: handler_defs router_reload_def rbind_Inr_iff
    split: option.splits sum.splits if_splits reload_phase.splits)

lemma run_site: "sys_run env s es s' \<Longrightarrow> r_site (sys_router s') = r_site (sys_router s)"
  by (induction rule: sys_run.induct) (simp_all add: step_site)

lemma router_new_site: "router_new versions_ok resolver site cfg = Inr r \<Longrightarrow> r_site r = site"
  by (auto simp: router_new_def rbind_Inr_iff)

lemma startup_site:
  assumes "startup env h p dirs install_ok bind_ok wall now = Inr s"
  shows "site_try_load (http_date (env_lib env)) wall (dirs (static_dir (sys_config s)))
    = Inr (r_site (sys_router s))"
  by (rule startup_Inr [OF assms]) (auto dest: router_new_site)

text \<open>Only the fallback route answers requests, from the router's site and the snapshot's settings.\<close>

lemma route_body_served:
  assumes "fst (route_body versions_ok lib net r sv st) = (res, Some (protocol, resps))"
  shows "sv_target sv = None"
    and "resp \<in> set resps \<Longrightarrow> \<exists>now req. resp = respond lib now req (r_site r) (rs_config (sv_state sv))"
proof -
  show none: "sv_target sv = None"
    using assms by (auto simp: route_body_def Let_def split: option.splits if_splits sum.splits prod.splits)
  then obtain hs sc reqs where "fst (serve lib hs sc (r_site r) (rs_config (sv_state sv)) reqs st) = Some (protocol, resps)"
    using assms by (auto simp: route_body_def Let_def case_prod_unfold)
  then show "resp \<in> set resps \<Longrightarrow> \<exists>now req. resp = respond lib now req (r_site r) (rs_config (sv_state sv))"
    by (rule serve_responses)
qed


section \<open>Conservation\<close>

text \<open>Every connection that was accepted has been refused or has got a task.\<close>

primrec is_accept :: "('cert, 'der, 'skey, 's) event \<Rightarrow> bool" where
  "is_accept Ev_acquire = False"
| "is_accept Ev_accept_error = False"
| "is_accept (Ev_accept now stream peer) = True"
| "is_accept Ev_shutdown = False"
| "is_accept (Ev_start i now) = False"
| "is_accept (Ev_body i) = False"
| "is_accept (Ev_end i now) = False"
| "is_accept (Ev_sweep now) = False"
| "is_accept (Ev_reload h p) = False"
| "is_accept Ev_reload_next = False"
| "is_accept Ev_watcher_ends = False"

definition seen :: "('cert, 'skey, 's, 'sem) system \<Rightarrow> u64" where
  "seen s = rejected (sys_stats s) + of_nat (sys_next s)"

lemma slots_balance [simp]:
  "balanced (limiter_stats (drop_slot ops cl)) = balanced (limiter_stats cl)"
  "rejected (limiter_stats (drop_slot ops cl)) = rejected (limiter_stats cl)"
  "balanced (count_slot st) = balanced st" "rejected (count_slot st) = rejected st"
  "balanced (count_rate_rejected st) = balanced st" "rejected (count_rate_rejected st) = rejected st + 1"
  "balanced (count_ip_rejected st) = balanced st" "rejected (count_ip_rejected st) = rejected st + 1"
  by (simp_all add: balanced_def rejected_def drop_slot_def uncount_slot_def count_slot_def
      count_rate_rejected_def count_ip_rejected_def Let_def)

lemma task_start_balance:
  "balanced (sys_stats (task_start env now i stream slot s)) = balanced (sys_stats s)"
  "seen (task_start env now i stream slot s) = seen s"
  using route_start_balance [of "env_net env" "sys_router s" now stream "sys_stats s", OF surjective_pairing]
  by (simp_all add: task_start_def case_prod_unfold Let_def seen_def)

lemma task_body_balance:
  "balanced (sys_stats (task_body env i sv slot s)) = balanced (sys_stats s)"
  "seen (task_body env i sv slot s) = seen s"
  using untouched_balance [OF route_body_untouched [of "env_versions_ok env" "env_lib env" "env_net env"
      "sys_router s" sv "sys_stats s"]]
  by (simp_all add: task_body_def case_prod_unfold Let_def seen_def)

lemma task_end_balance:
  "balanced (sys_stats (task_end env now i t s)) = balanced (sys_stats s)"
  "seen (task_end env now i t s) = seen s"
  by (simp_all add: task_end_def Let_def seen_def drop_guard_balance split: option.split)

lemma accept_ok_balance:
  "balanced (sys_stats (accept_ok env now stream peer s)) = balanced (sys_stats s)"
  "seen (accept_ok env now stream peer s) = seen s + 1"
  by (auto simp: accept_ok_def give_back_slot_def case_prod_unfold Let_def seen_def add.assoc split: option.split)

lemma step_balance:
  assumes "sys_step env s e s'"
  shows "balanced (sys_stats s') = balanced (sys_stats s)" "seen s' = seen s + of_bool (is_accept e)"
  using assms
proof (induction rule: sys_step.induct)
  case (acquire s s')
  case 1
  with acquire show ?case by (auto simp: accept_acquire_def dest: acquire_slot_stats split: option.splits)
next
  case (acquire s s')
  case 2
  with acquire show ?case
    by (auto simp: accept_acquire_def seen_def dest: acquire_slot_stats split: option.splits)
qed (simp_all add: task_start_balance task_body_balance task_end_balance accept_ok_balance,
    simp_all add: seen_def accept_error_def accept_stop_def give_back_slot_def janitor_tick_def
      reload_load_def reload_next_def Let_def split: sum.split reload_phase.split)

lemma run_balance:
  "sys_run env s es s' \<Longrightarrow>
    balanced (sys_stats s') = balanced (sys_stats s) \<and> seen s' = seen s + of_nat (length (filter is_accept es))"
  by (induction rule: sys_run.induct) (auto simp: step_balance)

lemma startup_balance:
  assumes "startup env h p dirs install_ok bind_ok wall now = Inr s"
  shows "balanced (sys_stats s)" "seen s = 0"
proof -
  have "sys_stats s = new_stats now" "sys_next s = 0"
    using assms by (auto simp: startup_def rbind_Inr_iff Let_def connection_limiter_new_def)
  then show "balanced (sys_stats s)" "seen s = 0"
    by (simp_all add: new_stats_def balanced_def seen_def rejected_def)
qed


section \<open>Draining\<close>

text \<open>Once the accept loop is gone it stays gone, and no task is ever added.\<close>

lemma step_stopped:
  assumes "sys_step env s e s'" "sys_accept s = Stopped"
  shows "sys_accept s' = Stopped" "dom (sys_tasks s') \<subseteq> dom (sys_tasks s)"
  using assms
proof (induction rule: sys_step.induct)
  case (finish s i t now)
  case 1
  with finish show ?case by (simp add: handler_defs split: option.split)
next
  case (finish s i t now)
  case 2
  with finish show ?case by (auto simp: handler_defs split: option.splits if_splits)
qed (auto simp: handler_defs split: sum.splits if_splits reload_phase.splits started.splits)

lemma run_stopped:
  assumes "sys_run env s es s'" "sys_accept s = Stopped"
  shows "sys_accept s' = Stopped \<and> dom (sys_tasks s') \<subseteq> dom (sys_tasks s)"
  by (rule sys_run_keeps [OF assms(1)]) (use assms(2) step_stopped in \<open>blast+\<close>)

lemma slots_held_stopped: "sys_accept s = Stopped \<Longrightarrow> slots_held s = card (dom (sys_tasks s))"
  by (simp add: slots_held_def tcount_True)

lemma active_when_stopped:
  assumes "startup env h p dirs install_ok bind_ok wall now = Inr s0" "semaphore_ok (env_sem env) permits"
    and "unat (max_connections (sys_config s0)) \<le> MAX_PERMITS" "sys_run env s0 es s"
    and "sys_accept s = Stopped"
  shows "active_connections (sys_stats s) = int (card (dom (sys_tasks s)))"
proof -
  have "slot_inv permits (unat (max_connections (sys_config s0))) (sys_limiter s, slots_held s)"
    by (rule sys_invD(3) [OF sys_run_inv [OF assms(4,2) startup_inv [OF assms(1-3)]]])
  then have "connections (sys_stats s) = of_nat (slots_held s)" "slots_held s < 2 ^ 63"
    using assms(3) by (auto simp: slot_inv_def MAX_PERMITS_def)
  then show ?thesis
    by (simp add: active_connections_def sint_of_nat_small slots_held_stopped [OF assms(5)])
qed

text \<open>The accept loop waits exactly when every slot is held, and then the end of any task frees one.\<close>

lemma inv_waits:
  assumes "sys_inv permits n s" "semaphore_ok (env_sem env) permits"
  shows "accept_acquire env s = None \<longleftrightarrow> slots_held s = n" "slots_held s \<le> n"
proof -
  have slots: "slot_inv permits n (sys_limiter s, slots_held s)" by (rule sys_invD(3) [OF assms(1)])
  moreover have "accept_acquire env s = None \<longleftrightarrow> acquire_slot (env_sem env) (sys_limiter s) = None"
    by (simp add: accept_acquire_def split: option.split)
  ultimately show "accept_acquire env s = None \<longleftrightarrow> slots_held s = n" using slot_inv_waits [OF assms(2)] by simp
  show "slots_held s \<le> n" using slots by (simp add: slot_inv_def)
qed

lemma accept_waits:
  assumes "startup env h p dirs install_ok bind_ok wall now = Inr s0" "semaphore_ok (env_sem env) permits"
    and "unat (max_connections (sys_config s0)) \<le> MAX_PERMITS" "sys_run env s0 es s"
  shows "accept_acquire env s = None \<longleftrightarrow> slots_held s = unat (max_connections (sys_config s0))"
  by (rule inv_waits(1) [OF sys_run_inv [OF assms(4,2) startup_inv [OF assms(1-3)]] assms(2)])

lemma startup_some_slot:
  "startup env h p dirs install_ok bind_ok wall now = Inr s0 \<Longrightarrow> 0 < unat (max_connections (sys_config s0))"
  by (rule startup_Inr, assumption) (auto dest: try_load_Inr simp: wf_config_def unat_gt_0)

lemma slots_held_tasks: "slots_held s = card (dom (sys_tasks s)) + (if sys_accept s = Holds_slot then 1 else 0)"
  by (simp add: slots_held_def tcount_True)

lemma task_end_slots:
  assumes "finite (dom (sys_tasks s))" "sys_tasks s i = Some t"
  shows "slots_held s = Suc (slots_held (task_end env now i t s))"
proof -
  have "sys_tasks (task_end env now i t s) = (sys_tasks s)(i := None)"
    "sys_accept (task_end env now i t s) = sys_accept s"
    by (simp_all add: task_end_def Let_def split: option.split)
  moreover have "i \<in> dom (sys_tasks s)" using assms(2) by blast
  then have "card (dom (sys_tasks s)) = Suc (card (dom (sys_tasks s) - {i}))"
    using assms(1) by (rule card.remove [rotated])
  ultimately show ?thesis by (simp only: slots_held_tasks dom_fun_upd if_True add_Suc refl)
qed

text \<open>Every task can end, and when all have, nothing is left.\<close>

lemma run_all_end:
  fixes s :: "('cert, 'skey, 's, 'sem) system"
  assumes "finite (dom (sys_tasks s))" "card (dom (sys_tasks s)) = k"
  shows "\<exists>(es :: ('cert, 'der, 'skey, 's) event list) s'.
    sys_run env s es s' \<and> length es = k \<and> sys_tasks s' = Map.empty \<and> sys_accept s' = sys_accept s"
  using assms
proof (induction k arbitrary: s)
  case 0
  then show ?case by (intro exI [of _ "[]"] exI [of _ s]) (simp add: run_nil)
next
  case (Suc k)
  then obtain i where "i \<in> dom (sys_tasks s)" by fastforce
  then obtain t where t: "sys_tasks s i = Some t" by blast
  let ?s = "task_end env 0 i t s"
  have tasks: "sys_tasks ?s = (sys_tasks s)(i := None)" and acc: "sys_accept ?s = sys_accept s"
    by (simp_all add: task_end_def Let_def split: option.split)
  have "finite (dom (sys_tasks ?s))" "card (dom (sys_tasks ?s)) = k"
    using Suc.prems \<open>i \<in> dom (sys_tasks s)\<close> by (simp_all add: tasks)
  then obtain es :: "('cert, 'der, 'skey, 's) event list" and s'
    where es: "sys_run env ?s es s'" "length es = k" "sys_tasks s' = Map.empty" "sys_accept s' = sys_accept ?s"
    using Suc.IH by blast
  have "sys_run env s (Ev_end i 0 # es) s'" by (rule run_step [OF finish [OF t] es(1)])
  then show ?case using es acc by (intro exI [of _ "Ev_end i 0 # es"] exI [of _ s']) simp
qed


section \<open>What the rate limit admits\<close>

text \<open>What the rate limiter sees of a run: the calls for accepted connections and the sweeps.\<close>

fun rate_events :: "('cert, 'der, 'skey, 's) event list \<Rightarrow> rate_event list" where
  "rate_events [] = []"
| "rate_events (Ev_accept now stream peer # es) = Call now (sa_ip peer) # rate_events es"
| "rate_events (Ev_sweep now # es) = Sweep now # rate_events es"
| "rate_events (_ # es) = rate_events es"

text \<open>A connection of the address \<open>ip\<close> gets a task in a step; a run in which \<open>n\<close> of them do.\<close>

definition gets_task ::
  "('cert, 'der, 'skey, 's) event \<Rightarrow> ip_addr \<Rightarrow> ('cert, 'skey, 's, 'sem) system
    \<Rightarrow> ('cert, 'skey, 's, 'sem) system \<Rightarrow> bool" where
  "gets_task e ip s s' =
     (case e of Ev_accept now stream peer \<Rightarrow> sa_ip peer = ip \<and> sys_next s' = Suc (sys_next s) | _ \<Rightarrow> False)"

inductive admits ::
  "('s, 'e, 'conn, 'sem) env \<Rightarrow> ip_addr \<Rightarrow> ('cert, 'skey, 's, 'sem) system
    \<Rightarrow> ('cert, 'der, 'skey, 's) event list \<Rightarrow> nat \<Rightarrow> ('cert, 'skey, 's, 'sem) system \<Rightarrow> bool" for env ip where
  admits_nil: "admits env ip s [] 0 s"
| admits_step: "sys_step env s e s' \<Longrightarrow> admits env ip s' es n s'' \<Longrightarrow>
    admits env ip s (e # es) (of_bool (gets_task e ip s s') + n) s''"

lemma run_iff_admits: "sys_run env s es s' \<longleftrightarrow> (\<exists>n. admits env ip s es n s')"
proof
  show "sys_run env s es s' \<Longrightarrow> \<exists>n. admits env ip s es n s'"
    by (induction rule: sys_run.induct) (blast intro: admits.intros)+
  have "admits env ip s es n s' \<Longrightarrow> sys_run env s es s'" for n
    by (induction rule: admits.induct) (auto intro: sys_run.intros)
  then show "\<exists>n. admits env ip s es n s' \<Longrightarrow> sys_run env s es s'" by blast
qed

lemma accept_ok_rate:
  "sys_rate (accept_ok env now stream peer s) = snd (allow now (sa_ip peer) (sys_rate s))"
  "sys_next (accept_ok env now stream peer s) = Suc (sys_next s) \<Longrightarrow> fst (allow now (sa_ip peer) (sys_rate s))"
  by (auto simp: accept_ok_def give_back_slot_def case_prod_unfold Let_def split: option.splits if_splits)

text \<open>A step other than one of the reload is one event of the rate limiter, or none.\<close>

lemma step_rate:
  assumes "sys_step env s e s'" "e \<noteq> Ev_reload_next"
  shows "rate_events (e # es) = rate_events [e] @ rate_events es"
    and "sys_rate s' = fold (\<lambda>e rl. case e of Call now a \<Rightarrow> snd (allow now a rl) | Sweep now \<Rightarrow> sweep now rl)
      (rate_events [e]) (sys_rate s)"
  using assms
proof (induction rule: sys_step.induct)
  case (acquire s s')
  case 2
  with acquire show ?case by (auto simp: accept_acquire_def split: option.splits)
next
  case (finish s i t now)
  case 2
  then show ?case by (simp add: task_end_def Let_def split: option.split)
qed (simp_all add: accept_ok_rate, simp_all add: handler_defs split: sum.split)

lemma admits_granted:
  assumes "admits env ip s es n s'" "Ev_reload_next \<notin> set es"
  shows "n \<le> granted ip (rate_events es) (sys_rate s)"
  using assms
proof (induction rule: admits.induct)
  case (admits_step s e s' es n s'')
  then have n: "n \<le> granted ip (rate_events es) (sys_rate s')" by simp
  show ?case
  proof (cases "\<exists>now stream peer. e = Ev_accept now stream peer")
    case True
    then obtain now stream peer where e: "e = Ev_accept now stream peer" by blast
    with admits_step.hyps(1) have "s' = accept_ok env now stream peer s" by (auto elim: sys_step_acceptE)
    then show ?thesis using n accept_ok_rate [of env now stream peer s] by (auto simp: gets_task_def e)
  next
    case False
    then show ?thesis
      using n step_rate(2) [OF admits_step.hyps(1)] admits_step.prems
      by (cases e) (simp_all add: gets_task_def)
  qed
qed simp


section \<open>Snapshots\<close>

text \<open>
  A router state that was built from one configuration, and a connection whose route, guard and
  settings come from one such state. \<open>P\<close> says which configurations are meant.
\<close>

definition built_from :: "service_config \<Rightarrow> router_state \<Rightarrow> bool" where
  "built_from cfg st \<longleftrightarrow>
     rs_config st = cfg \<and> rs_routes st = routes_table (routes cfg) \<and>
     sc_versions (rs_server_config st) = tls_versions cfg \<and>
     sc_alpn (rs_server_config st) = default_alpn_protocols"

definition snapshot_ok :: "(service_config \<Rightarrow> bool) \<Rightarrow> 's serving \<Rightarrow> bool" where
  "snapshot_ok P sv \<longleftrightarrow>
     (\<exists>cfg. P cfg \<and> built_from cfg (sv_state sv)) \<and>
     (\<exists>name. route_target (sv_state sv) name = sv_target sv) \<and>
     guard_route (sv_guard sv) = (case sv_target sv of Some _ \<Rightarrow> Proxied | None \<Rightarrow> Fallback)"

definition snapshots_ok :: "(service_config \<Rightarrow> bool) \<Rightarrow> ('cert, 'skey, 's, 'sem) system \<Rightarrow> bool" where
  "snapshots_ok P s \<longleftrightarrow>
     (\<exists>cfg. P cfg \<and> built_from cfg (r_state (sys_router s))) \<and>
     pending_ok P s \<and>
     (\<forall>i sv a. sys_tasks s i = Some (Being_served sv a) \<longrightarrow> snapshot_ok P sv)"

lemma router_new_built: "router_new ok ref site cfg = Inr r \<Longrightarrow> built_from cfg (r_state r)"
  by (auto simp: router_new_def router_state_new_def build_server_config_def built_from_def rbind_Inr_iff
      Let_def split: if_splits)

lemma router_reload_built: "router_reload ok cfg r = Inr r' \<Longrightarrow> built_from cfg (r_state r')"
  by (auto simp: router_reload_def router_state_new_def build_server_config_def built_from_def rbind_Inr_iff
      Let_def split: if_splits)

lemma route_start_snapshot:
  assumes "route_start net r now stream st = (Served sv, st')" "P cfg" "built_from cfg (r_state r)"
  shows "snapshot_ok P sv"
  using assms unfolding snapshot_ok_def
  by (auto simp: route_start_def Let_def begin_proxied_def begin_fallback_def
      split: probe_outcome.splits option.splits)

text \<open>The shapes a step can leave the router and the tasks in.\<close>

lemma step_router:
  assumes "sys_step env s e s'"
  shows "sys_router s' = sys_router s \<or>
    (\<exists>cfg. pending (sys_reload s) = Some cfg \<and> router_reload (env_versions_ok env) cfg (sys_router s) = Inr (sys_router s'))"
  using assms
proof (induction rule: sys_step.induct)
  case (finish s i t now)
  show ?case by (simp add: handler_defs split: option.split)
qed (auto simp: handler_defs split: option.splits sum.splits if_splits reload_phase.splits)

lemma step_serving:
  assumes "sys_step env s e s'" "sys_tasks s' i = Some (Being_served sv a)"
  shows "sys_tasks s i = Some (Being_served sv a) \<or>
    (\<exists>now stream st'. route_start (env_net env) (sys_router s) now stream (sys_stats s) = (Served sv, st'))"
  using assms
proof (induction rule: sys_step.induct)
  case (finish s j t now)
  then show ?case by (auto simp: handler_defs split: option.splits if_splits)
next
  case (start s j stream slot now)
  then show ?case
    by (cases "route_start (env_net env) (sys_router s) now stream (sys_stats s)")
      (auto simp: handler_defs split: started.splits if_splits)
qed (auto simp: handler_defs split: option.splits sum.splits if_splits reload_phase.splits)

lemma step_in_flight:
  assumes "sys_step env s e s'" "sys_tasks s i = Some (Being_served sv a)" "i < sys_next s"
  shows "sys_tasks s' i = sys_tasks s i \<or> e = Ev_body i \<or> (\<exists>now. e = Ev_end i now)"
  using assms
proof (induction rule: sys_step.induct)
  case (finish s j t now)
  then show ?case by (auto simp: handler_defs split: option.splits if_splits)
qed (auto simp: handler_defs split: option.splits sum.splits if_splits reload_phase.splits)

lemma step_snapshots:
  assumes step: "sys_step env s e s'" and ok: "snapshots_ok P s"
    and loads: "\<And>h p cfg. e = Ev_reload h p \<Longrightarrow> try_load (env_toml env) h = Inr cfg \<Longrightarrow> P cfg"
  shows "snapshots_ok P s'"
  unfolding snapshots_ok_def
proof (intro conjI allI impI)
  obtain cfg where cfg: "P cfg" "built_from cfg (r_state (sys_router s))"
    using ok by (auto simp: snapshots_ok_def)
  show "\<exists>cfg. P cfg \<and> built_from cfg (r_state (sys_router s'))"
    using step_router [OF step] cfg ok router_reload_built
    unfolding snapshots_ok_def pending_ok_def by metis
  show "pending_ok P s'"
    using pending_step [OF step] ok loads by (auto simp: snapshots_ok_def pending_ok_def)
  show "snapshot_ok P sv" if "sys_tasks s' i = Some (Being_served sv a)" for i sv a
    using step_serving [OF step that] ok route_start_snapshot cfg unfolding snapshots_ok_def by metis
qed

lemma run_snapshots:
  assumes "sys_run env s es s'" "snapshots_ok P s"
    and "\<And>h p cfg. Ev_reload h p \<in> set es \<Longrightarrow> try_load (env_toml env) h = Inr cfg \<Longrightarrow> P cfg"
  shows "snapshots_ok P s'"
proof (rule sys_run_keeps [where Q = "snapshots_ok P", OF assms(1,2)])
  fix s e s'
  assume "e \<in> set es" and ok: "snapshots_ok P s" and step: "sys_step env s e s'"
  then show "snapshots_ok P s'" using assms(3) by (intro step_snapshots [OF step ok]) blast
qed

lemma startup_snapshots:
  assumes "startup env h p dirs install_ok bind_ok wall now = Inr s" "P (sys_config s)"
  shows "snapshots_ok P s"
proof (rule startup_Inr [OF assms(1)])
  fix cfg
  assume s: "sys_config s = cfg" "sys_tasks s = Map.empty" "sys_reload s = Watching"
    and "\<exists>site. router_new (env_versions_ok env) 0 site cfg = Inr (sys_router s) \<and>
      site_try_load (http_date (env_lib env)) wall (dirs (static_dir cfg)) = Inr site"
  then show ?thesis
    using router_new_built assms(2) by (fastforce simp: snapshots_ok_def pending_ok_def)
qed


section \<open>Certificates\<close>

text \<open>All server configurations of the process share its one resolver (reference 0), and the keys it
  has held, or is about to hold, satisfy \<open>P\<close>.\<close>

definition certs_ok ::
  "(('cert, 'skey) certified_key \<Rightarrow> bool) \<Rightarrow> ('cert, 'skey, 's, 'sem) system \<Rightarrow> bool" where
  "certs_ok P s \<longleftrightarrow>
     P (cert_key (sys_resolver s)) \<and> (\<forall>cfg key. sys_reload s = Loaded cfg key \<longrightarrow> P key) \<and>
     r_cert_resolver (sys_router s) = 0 \<and> sc_resolver (rs_server_config (r_state (sys_router s))) = 0 \<and>
     (\<forall>i sv a. sys_tasks s i = Some (Being_served sv a) \<longrightarrow> sc_resolver (rs_server_config (sv_state sv)) = 0)"

lemma router_new_resolver: "router_new ok ref site cfg = Inr r \<Longrightarrow>
    r_cert_resolver r = ref \<and> sc_resolver (rs_server_config (r_state r)) = ref"
  by (auto simp: router_new_def router_state_new_def build_server_config_def rbind_Inr_iff
      Let_def split: if_splits)

lemma router_reload_resolver: "router_reload ok cfg r = Inr r' \<Longrightarrow>
    r_cert_resolver r' = r_cert_resolver r \<and> sc_resolver (rs_server_config (r_state r')) = r_cert_resolver r"
  by (auto simp: router_reload_def router_state_new_def build_server_config_def rbind_Inr_iff
      Let_def split: if_splits)

lemma route_start_state: "route_start net r now stream st = (Served sv, st') \<Longrightarrow> sv_state sv = r_state r"
  by (auto simp: route_start_def Let_def split: probe_outcome.splits prod.splits)

lemma step_resolver:
  assumes "sys_step env s e s'"
  shows "sys_resolver s' = sys_resolver s \<or>
    (\<exists>cfg key. sys_reload s = Loaded cfg key \<and> cert_key (sys_resolver s') = key)"
  using assms
proof (induction rule: sys_step.induct)
  case (finish s i t now)
  show ?case by (simp add: handler_defs split: option.split)
qed (auto simp: handler_defs cert_resolver_update_def split: option.splits sum.splits if_splits reload_phase.splits)

lemma step_loaded:
  assumes "sys_step env s e s'" "sys_reload s' = Loaded cfg key"
  shows "sys_reload s = Loaded cfg key \<or>
    (\<exists>h p. e = Ev_reload h p \<and> try_load (env_toml env) h = Inr cfg \<and>
       load_certified_key p (tls_cert_path cfg) (tls_key_path cfg) = Inr key)"
  using assms
proof (induction rule: sys_step.induct)
  case (finish s i t now)
  then show ?case by (simp add: handler_defs split: option.splits)
qed (auto simp: handler_defs split: option.splits sum.splits if_splits reload_phase.splits)

lemma step_certs:
  assumes step: "sys_step env s e s'" and ok: "certs_ok P s"
    and loads: "\<And>h p cfg key. e = Ev_reload h p \<Longrightarrow> try_load (env_toml env) h = Inr cfg \<Longrightarrow>
      load_certified_key p (tls_cert_path cfg) (tls_key_path cfg) = Inr key \<Longrightarrow> P key"
  shows "certs_ok P s'"
  unfolding certs_ok_def
proof (intro conjI allI impI)
  show "P (cert_key (sys_resolver s'))" using step_resolver [OF step] ok unfolding certs_ok_def by metis
  show "P key" if "sys_reload s' = Loaded cfg key" for cfg key
    using step_loaded [OF step that] ok loads unfolding certs_ok_def by blast
  show "r_cert_resolver (sys_router s') = 0" "sc_resolver (rs_server_config (r_state (sys_router s'))) = 0"
    using step_router [OF step] ok router_reload_resolver unfolding certs_ok_def by metis+
  show "sc_resolver (rs_server_config (sv_state sv)) = 0" if "sys_tasks s' i = Some (Being_served sv a)" for i sv a
    using step_serving [OF step that] ok route_start_state unfolding certs_ok_def by metis
qed

lemma run_certs:
  assumes "sys_run env s es s'" "certs_ok P s"
    and "\<And>h p cfg key. Ev_reload h p \<in> set es \<Longrightarrow> try_load (env_toml env) h = Inr cfg \<Longrightarrow>
      load_certified_key p (tls_cert_path cfg) (tls_key_path cfg) = Inr key \<Longrightarrow> P key"
  shows "certs_ok P s'"
proof (rule sys_run_keeps [where Q = "certs_ok P", OF assms(1,2)])
  fix s e s'
  assume "e \<in> set es" and ok: "certs_ok P s" and step: "sys_step env s e s'"
  then show "certs_ok P s'" using assms(3) by (intro step_certs [OF step ok]) blast
qed

lemma startup_certs:
  assumes "startup env h p dirs install_ok bind_ok wall now = Inr s"
    and "\<And>cfg key. try_load (env_toml env) h = Inr cfg \<Longrightarrow>
      load_certified_key p (tls_cert_path cfg) (tls_key_path cfg) = Inr key \<Longrightarrow> P key"
  shows "certs_ok P s"
proof (rule startup_Inr [OF assms(1)])
  fix cfg
  assume s: "try_load (env_toml env) h = Inr cfg" "sys_tasks s = Map.empty" "sys_reload s = Watching"
    and router: "\<exists>site. router_new (env_versions_ok env) 0 site cfg = Inr (sys_router s) \<and>
      site_try_load (http_date (env_lib env)) wall (dirs (static_dir cfg)) = Inr site"
    and built: "build_cert_resolver p cfg = Inr (sys_resolver s)"
  show ?thesis using build_cert_resolver_key [OF built] s router router_new_resolver assms(2) by (auto simp: certs_ok_def)
qed


section \<open>A reload on its own\<close>

lemma reload_next_watching: "sys_reload s = Watching \<Longrightarrow> reload_next env s = s"
  by (simp add: reload_next_def)

lemma hot_reload_failed:
  assumes "sys_reload s = Watching" "snd (reload_load env h p s) = s"
  shows "snd (hot_reload env h p s) = s"
  using assms by (simp add: hot_reload_def case_prod_unfold Let_def reload_next_watching)

lemma hot_reload_done:
  assumes "provider_supports (env_versions_ok env)" "sys_reload s = Watching"
    and "try_load (env_toml env) h = Inr cfg"
    and "load_certified_key p (tls_cert_path cfg) (tls_key_path cfg) = Inr key"
  shows "snd (hot_reload env h p s) =
    s\<lparr>sys_reload := Watching, sys_config := cfg, sys_resolver := \<lparr>cert_key = key\<rparr>,
      sys_router := (sys_router s)\<lparr>r_state :=
        \<lparr>rs_routes = routes_table (routes cfg),
         rs_server_config = \<lparr>sc_versions = tls_versions cfg,
                             sc_resolver = r_cert_resolver (sys_router s),
                             sc_alpn = default_alpn_protocols\<rparr>,
         rs_config = cfg\<rparr>\<rparr>,
      sys_ip := ip_set_limit (or_default (max_connections_per_ip cfg) 0) (sys_ip s),
      sys_rate := rate_set_limit (or_default (connection_rate_per_ip cfg) (Fin 0))
                    (or_default (connection_burst_per_ip cfg) 10) (sys_rate s)\<rparr>"
proof -
  define s1 where "s1 = s\<lparr>sys_reload := Loaded cfg key\<rparr>"
  define s2 where "s2 = s\<lparr>sys_reload := Cert_updated cfg, sys_resolver := \<lparr>cert_key = key\<rparr>\<rparr>"
  define s3 where "s3 = s2\<lparr>sys_reload := Routes_swapped cfg,
      sys_router := (sys_router s)\<lparr>r_state :=
        \<lparr>rs_routes = routes_table (routes cfg),
         rs_server_config = \<lparr>sc_versions = tls_versions cfg,
                             sc_resolver = r_cert_resolver (sys_router s),
                             sc_alpn = default_alpn_protocols\<rparr>,
         rs_config = cfg\<rparr>\<rparr>\<rparr>"
  have "snd (reload_load env h p s) = s1"
    by (simp add: reload_load_def assms(3,4) Let_def s1_def)
  moreover have "reload_next env s1 = s2"
    by (simp add: s1_def s2_def reload_next_def cert_resolver_update_def)
  moreover have "reload_next env s2 = s3"
    by (simp add: s2_def s3_def reload_next_def router_reload_def router_state_new_ok [OF assms(1)])
  ultimately have "snd (hot_reload env h p s) = reload_next env (reload_next env (reload_next env s3))"
    by (simp only: hot_reload_def case_prod_unfold Let_def snd_conv)
  then show ?thesis by (simp add: s3_def s2_def reload_next_def rate_set_limit_def)
qed


text \<open>The warnings compare the loaded configuration with the one of the last reload.\<close>

lemma hot_reload_warnings:
  assumes "try_load (env_toml env) h = Inr cfg"
  shows "fst (hot_reload env h p s) = warn_about_unreloadable_changes (sys_config s) cfg"
  using assms by (simp add: hot_reload_def reload_load_def Let_def case_prod_unfold split: sum.split)

lemma hot_reload_unloadable:
  assumes "try_load (env_toml env) h = Inl err"
  shows "fst (hot_reload env h p s) = []"
  using assms by (simp add: hot_reload_def reload_load_def Let_def case_prod_unfold)

text \<open>Such a round is one of the runs of the process.\<close>

lemma reload_next_run: "\<exists>es. set es \<subseteq> {Ev_reload_next} \<and> sys_run env s es (reload_next env s)"
proof (cases "sys_reload s \<in> {Watching, Watcher_ended}")
  case True
  then have "reload_next env s = s" by (auto simp: reload_next_def)
  then show ?thesis by (intro exI [of _ "[]"]) (simp add: run_nil)
next
  case False
  have "sys_run env s [Ev_reload_next] (reload_next env s)"
    by (rule run_step [OF reload_next [OF False] run_nil])
  then show ?thesis by (intro exI [of _ "[Ev_reload_next]"]) simp
qed

lemma run_reload_next:
  fixes E :: "('cert, 'der, 'skey, 's) event set"
  assumes "\<exists>es. set es \<subseteq> E \<and> sys_run env s es s'" "Ev_reload_next \<in> E"
  shows "\<exists>es. set es \<subseteq> E \<and> sys_run env s es (reload_next env s')"
proof -
  obtain es where es: "set es \<subseteq> E" "sys_run env s es s'" using assms(1) by blast
  obtain fs :: "('cert, 'der, 'skey, 's) event list"
    where fs: "set fs \<subseteq> {Ev_reload_next}" "sys_run env s' fs (reload_next env s')"
    using reload_next_run by blast
  have "set (es @ fs) \<subseteq> E" using es(1) fs(1) assms(2) by auto
  then show ?thesis using sys_run_append [OF es(2) fs(2)] by blast
qed

lemma hot_reload_run:
  assumes "sys_reload s = Watching"
  shows "\<exists>es. set es \<subseteq> {Ev_reload h p, Ev_reload_next} \<and> sys_run env s es (snd (hot_reload env h p s))"
proof -
  have "\<exists>es. set es \<subseteq> {Ev_reload h p, Ev_reload_next} \<and> sys_run env s es (snd (reload_load env h p s))"
    by (rule exI [of _ "[Ev_reload h p]"]) (simp add: run_step [OF reload [OF assms] run_nil])
  then show ?thesis
    unfolding hot_reload_def case_prod_unfold Let_def snd_conv by (intro run_reload_next) simp_all
qed


section \<open>The window of a reload\<close>

text \<open>Between the update of the certificate and the swap of the routes, handshakes already get the
  new certificate while connections are still routed by the old table.\<close>

lemma reload_window:
  assumes "sys_reload s = Loaded cfg key" "sys_step env s Ev_reload_next s'"
  shows "cert_resolver_resolve (sys_resolver s') hello = Some key \<and> sys_router s' = sys_router s"
  using assms(2) by cases (simp_all add: reload_next_def assms(1))

end
