(* ===== verification/Stats_Sum.thy ===== *)
theory Stats_Sum
  imports Stats
begin

text \<open>
  The counters of \<open>src/metrics.rs\<close> add up: statistics form a commutative monoid, field by field, and
  an update that only counts (\<open>tallies\<close>) adds what it does to empty statistics. Such updates
  compose.
\<close>

section \<open>Statistics as a commutative monoid\<close>

instantiation unit :: comm_monoid_add
begin

definition plus_unit :: "unit \<Rightarrow> unit \<Rightarrow> unit" where
  "plus_unit x y = ()"

definition zero_unit :: unit where
  "zero_unit = ()"

instance
  by intro_classes simp_all

end

instantiation stats_ext :: (comm_monoid_add) comm_monoid_add
begin

definition zero_stats_ext :: "'a stats_scheme" where
  "zero_stats_ext =
     \<lparr>start = 0,
      connections = 0,
      connections_rejected_ip_limit_total = 0,
      connections_rejected_rate_limit_total = 0,
      connections_proxied_total = 0,
      connections_fallback_total = 0,
      connections_proxied_completed_total = 0,
      connections_fallback_completed_total = 0,
      proxy_connection_duration_ms_total = 0,
      fallback_connection_duration_ms_total = 0,
      connections_probe_timeout_total = 0,
      connections_probe_io_error_total = 0,
      active_proxied = 0,
      active_fallback = 0,
      sni_present_total = 0,
      sni_absent_total = 0,
      proxy_bytes_client_to_service_total = 0,
      proxy_bytes_service_to_client_total = 0,
      proxy_service_connect_failures_total = 0,
      proxy_service_connect_retries_total = 0,
      fallback_tls_handshake_success_total = 0,
      fallback_tls_handshake_failure_total = 0,
      fallback_alpn_h2_total = 0,
      fallback_alpn_http1_total = 0,
      fallback_alpn_none_total = 0,
      proxy_tls_handshake_success_total = 0,
      proxy_tls_handshake_failure_total = 0,
      http_method_get_total = 0,
      http_method_head_total = 0,
      http_method_options_total = 0,
      http_method_other_total = 0,
      http_status_200_total = 0,
      http_status_204_total = 0,
      http_status_304_total = 0,
      http_status_404_total = 0,
      http_status_405_total = 0,
      http_status_other_total = 0,
      http_bytes_sent_total = 0,
      \<dots> = 0\<rparr>"

definition plus_stats_ext :: "'a stats_scheme \<Rightarrow> 'a stats_scheme \<Rightarrow> 'a stats_scheme" where
  "plus_stats_ext s t =
     \<lparr>start = start s + start t,
      connections = connections s + connections t,
      connections_rejected_ip_limit_total = connections_rejected_ip_limit_total s + connections_rejected_ip_limit_total t,
      connections_rejected_rate_limit_total = connections_rejected_rate_limit_total s + connections_rejected_rate_limit_total t,
      connections_proxied_total = connections_proxied_total s + connections_proxied_total t,
      connections_fallback_total = connections_fallback_total s + connections_fallback_total t,
      connections_proxied_completed_total = connections_proxied_completed_total s + connections_proxied_completed_total t,
      connections_fallback_completed_total = connections_fallback_completed_total s + connections_fallback_completed_total t,
      proxy_connection_duration_ms_total = proxy_connection_duration_ms_total s + proxy_connection_duration_ms_total t,
      fallback_connection_duration_ms_total = fallback_connection_duration_ms_total s + fallback_connection_duration_ms_total t,
      connections_probe_timeout_total = connections_probe_timeout_total s + connections_probe_timeout_total t,
      connections_probe_io_error_total = connections_probe_io_error_total s + connections_probe_io_error_total t,
      active_proxied = active_proxied s + active_proxied t,
      active_fallback = active_fallback s + active_fallback t,
      sni_present_total = sni_present_total s + sni_present_total t,
      sni_absent_total = sni_absent_total s + sni_absent_total t,
      proxy_bytes_client_to_service_total = proxy_bytes_client_to_service_total s + proxy_bytes_client_to_service_total t,
      proxy_bytes_service_to_client_total = proxy_bytes_service_to_client_total s + proxy_bytes_service_to_client_total t,
      proxy_service_connect_failures_total = proxy_service_connect_failures_total s + proxy_service_connect_failures_total t,
      proxy_service_connect_retries_total = proxy_service_connect_retries_total s + proxy_service_connect_retries_total t,
      fallback_tls_handshake_success_total = fallback_tls_handshake_success_total s + fallback_tls_handshake_success_total t,
      fallback_tls_handshake_failure_total = fallback_tls_handshake_failure_total s + fallback_tls_handshake_failure_total t,
      fallback_alpn_h2_total = fallback_alpn_h2_total s + fallback_alpn_h2_total t,
      fallback_alpn_http1_total = fallback_alpn_http1_total s + fallback_alpn_http1_total t,
      fallback_alpn_none_total = fallback_alpn_none_total s + fallback_alpn_none_total t,
      proxy_tls_handshake_success_total = proxy_tls_handshake_success_total s + proxy_tls_handshake_success_total t,
      proxy_tls_handshake_failure_total = proxy_tls_handshake_failure_total s + proxy_tls_handshake_failure_total t,
      http_method_get_total = http_method_get_total s + http_method_get_total t,
      http_method_head_total = http_method_head_total s + http_method_head_total t,
      http_method_options_total = http_method_options_total s + http_method_options_total t,
      http_method_other_total = http_method_other_total s + http_method_other_total t,
      http_status_200_total = http_status_200_total s + http_status_200_total t,
      http_status_204_total = http_status_204_total s + http_status_204_total t,
      http_status_304_total = http_status_304_total s + http_status_304_total t,
      http_status_404_total = http_status_404_total s + http_status_404_total t,
      http_status_405_total = http_status_405_total s + http_status_405_total t,
      http_status_other_total = http_status_other_total s + http_status_other_total t,
      http_bytes_sent_total = http_bytes_sent_total s + http_bytes_sent_total t,
      \<dots> = stats.more s + stats.more t\<rparr>"

instance
  by intro_classes (simp_all add: plus_stats_ext_def zero_stats_ext_def ac_simps)

end

lemma new_stats_0: "new_stats 0 = 0"
  by (simp add: new_stats_def zero_stats_ext_def)


section \<open>Updates that count\<close>

definition tallies :: "(stats \<Rightarrow> stats) \<Rightarrow> bool" where
  "tallies f \<longleftrightarrow> (\<forall>s. f s = s + f 0)"

lemma tallies_apply: "tallies f \<Longrightarrow> f s = s + f 0"
  unfolding tallies_def by (rule spec)

lemma tallies_id [intro]: "tallies (\<lambda>s. s)"
  by (simp add: tallies_def)

lemma tallies_comp:
  assumes "tallies f" "tallies g"
  shows "tallies (\<lambda>s. g (f s))"
  unfolding tallies_def
proof
  fix s
  have "g (f s) = (s + f 0) + g 0"
    using tallies_apply [OF assms(2), of "f s"] tallies_apply [OF assms(1), of s] by simp
  also have "\<dots> = s + (f 0 + g 0)" by (rule add.assoc)
  also have "f 0 + g 0 = g (f 0)" by (rule tallies_apply [OF assms(2), symmetric])
  finally show "g (f s) = s + g (f 0)" .
qed

lemma tallies_fold: "(\<And>x. x \<in> set xs \<Longrightarrow> tallies (f x)) \<Longrightarrow> tallies (fold f xs)"
proof (induction xs)
  case Nil
  show ?case by (simp add: tallies_def)
next
  case (Cons x xs)
  have "tallies (\<lambda>s. fold f xs (f x s))"
    by (rule tallies_comp) (use Cons in \<open>simp_all only: list.set_intros\<close>)
  then show ?case by (simp only: fold_simps)
qed


section \<open>Operations that only write\<close>

text \<open>An operation on the statistics whose result does not depend on them and whose effect is to count.\<close>

definition write_only :: "(stats \<Rightarrow> 'a \<times> stats) \<Rightarrow> bool" where
  "write_only g \<longleftrightarrow> (\<exists>a f. tallies f \<and> (\<forall>s. g s = (a, f s)))"

lemma write_onlyI: "tallies f \<Longrightarrow> (\<And>s. g s = (a, f s)) \<Longrightarrow> write_only g"
  unfolding write_only_def by blast

lemma write_onlyE:
  assumes "write_only g"
  obtains a f where "tallies f" "\<And>s. g s = (a, f s)"
  using assms unfolding write_only_def by blast

lemma write_only_return: "tallies f \<Longrightarrow> write_only (\<lambda>s. (a, f s))"
  by (rule write_onlyI) simp_all

lemma write_only_bind:
  assumes "write_only g" and "\<And>a. write_only (h a)"
  shows "write_only (\<lambda>s. case g s of (a, s1) \<Rightarrow> h a s1)"
proof -
  obtain a f where f: "tallies f" "\<And>s. g s = (a, f s)" using assms(1) by (rule write_onlyE) blast
  obtain b k where k: "tallies k" "\<And>s. h a s = (b, k s)" using assms(2) by (rule write_onlyE) blast
  show ?thesis
    by (rule write_onlyI [OF tallies_comp [OF f(1) k(1)], of _ b]) (simp only: f(2) k(2) prod.case)
qed

lemma write_only_then:
  assumes "tallies f" and "write_only g"
  shows "write_only (\<lambda>s. g (f s))"
proof -
  obtain b k where k: "tallies k" "\<And>s. g s = (b, k s)" using assms(2) by (rule write_onlyE) blast
  show ?thesis
    by (rule write_onlyI [OF tallies_comp [OF assms(1) k(1)], of _ b]) (simp only: k(2))
qed

text \<open>The updates of the guards.\<close>

lemmas tallies_defs = plus_stats_ext_def zero_stats_ext_def Let_def

lemma tallies_drop_guard: "tallies (drop_guard now g)"
  unfolding tallies_def
  by (intro allI stats.equality) (simp_all add: drop_guard_def tallies_defs split: route_kind.split)

lemma write_only_begin: "write_only (begin_proxied now)" "write_only (begin_fallback now)"
proof -
  have t: "tallies (\<lambda>s. s\<lparr>connections_proxied_total := connections_proxied_total s + 1,
      active_proxied := active_proxied s + 1\<rparr>)"
    "tallies (\<lambda>s. s\<lparr>connections_fallback_total := connections_fallback_total s + 1,
      active_fallback := active_fallback s + 1\<rparr>)"
    unfolding tallies_def by (intro allI stats.equality; simp add: tallies_defs)+
  show "write_only (begin_proxied now)"
    unfolding begin_proxied_def by (rule write_only_return [OF t(1)])
  show "write_only (begin_fallback now)"
    unfolding begin_fallback_def by (rule write_only_return [OF t(2)])
qed

end
