(* ===== verification/Concurrency.thy ===== *)
theory Concurrency
  imports System_Runs Stats_Sum
begin

text \<open>
  Nothing in the process reads its statistics. What a handler adds to the counters does not depend
  on what they hold, and neither does anything else it does; so a run goes the same way whatever the
  counters say, and what it adds to them is one sum (\<open>run_write_only\<close>). In the code other connections
  move the same counters while a handler runs, which the model takes as one step: by the same fact
  the handler does what it would have done alone, and its \<open>fetch_add\<close>s are terms of a sum.
\<close>

section \<open>A connection only writes the statistics\<close>

lemma tallies_counts:
  "tallies count_slot" "tallies uncount_slot" "tallies count_rate_rejected" "tallies count_ip_rejected"
  "tallies (count_sni name)" "tallies (count_alpn alpn)" "tallies (count_method m)" "tallies (count_status c)"
  "tallies (count_retries k)"
  unfolding tallies_def
  by (intro allI stats.equality;
      simp add: count_slot_def uncount_slot_def count_rate_rejected_def count_ip_rejected_def
        count_sni_def count_alpn_def count_method_def count_status_def count_retries_def tallies_defs
        split: option.split)+

lemma tallies_fields:
  "tallies (\<lambda>s. s\<lparr>http_bytes_sent_total := http_bytes_sent_total s + n\<rparr>)"
  "tallies (\<lambda>s. s\<lparr>proxy_service_connect_failures_total := proxy_service_connect_failures_total s + n\<rparr>)"
  "tallies (\<lambda>s. s\<lparr>proxy_bytes_client_to_service_total := proxy_bytes_client_to_service_total s + n,
     proxy_bytes_service_to_client_total := proxy_bytes_service_to_client_total s + m\<rparr>)"
  "tallies (\<lambda>s. s\<lparr>fallback_tls_handshake_success_total := fallback_tls_handshake_success_total s + n\<rparr>)"
  "tallies (\<lambda>s. s\<lparr>fallback_tls_handshake_failure_total := fallback_tls_handshake_failure_total s + n\<rparr>)"
  "tallies (\<lambda>s. s\<lparr>proxy_tls_handshake_success_total := proxy_tls_handshake_success_total s + n\<rparr>)"
  "tallies (\<lambda>s. s\<lparr>proxy_tls_handshake_failure_total := proxy_tls_handshake_failure_total s + n\<rparr>)"
  "tallies (\<lambda>s. s\<lparr>connections_probe_io_error_total := connections_probe_io_error_total s + n\<rparr>)"
  "tallies (\<lambda>s. s\<lparr>connections_probe_timeout_total := connections_probe_timeout_total s + n\<rparr>)"
  unfolding tallies_def by (intro allI stats.equality; simp add: tallies_defs)+

lemma tallies_response: "tallies (\<lambda>s. record_response_metrics lib s resp)"
proof (cases "content_length_of lib resp")
  case None
  then show ?thesis by (simp add: record_response_metrics_def tallies_counts)
next
  case (Some n)
  then show ?thesis
    using tallies_comp [OF tallies_counts(8) tallies_fields(1)]
    by (simp add: record_response_metrics_def Let_def)
qed

lemma write_only_handle_all: "write_only (handle_all lib site cfg reqs)"
proof (induction reqs)
  case Nil
  show ?case by (rule write_onlyI [OF tallies_id]) simp
next
  case (Cons r reqs)
  obtain now req where r: "r = (now, req)" by fastforce
  obtain a f where f: "tallies f" "\<And>s. handle_all lib site cfg reqs s = (a, f s)"
    using Cons.IH by (rule write_onlyE) blast
  let ?resp = "respond lib now req site cfg"
  have "tallies (\<lambda>s. f (record_response_metrics lib (count_method (req_method req) s) ?resp))"
    by (rule tallies_comp [OF tallies_comp [OF tallies_counts(7) tallies_response] f(1)])
  then show ?case
    by (rule write_onlyI [of _ _ "?resp # a"]) (simp add: r handle_http_def f(2) Let_def)
qed

lemma write_only_serve: "write_only (serve lib handshake sc site cfg reqs)"
proof (cases "handshake (dur_from_secs (unat (handshake_timeout_secs cfg))) sc")
  case (Handshake_ok alpn)
  obtain a f where f: "tallies f" "\<And>s. handle_all lib site cfg reqs s = (a, f s)"
    using write_only_handle_all by (rule write_onlyE) blast
  show ?thesis
    by (rule write_onlyI [OF tallies_comp [OF tallies_comp [OF tallies_fields(4) tallies_counts(6)] f(1)]])
       (simp add: serve_def Handshake_ok f(2) Let_def)
next
  case Handshake_error
  show ?thesis by (rule write_onlyI [OF tallies_fields(5)]) (simp add: serve_def Handshake_error)
next
  case Handshake_timeout
  show ?thesis by (rule write_onlyI [OF tallies_fields(5)]) (simp add: serve_def Handshake_timeout)
qed

text \<open>A relay, with its sleeps beside its result.\<close>

definition relayed ::
  "(stats \<Rightarrow> 'a \<times> stats \<times> duration list) \<Rightarrow> stats \<Rightarrow> ('a \<times> duration list) \<times> stats" where
  "relayed g st = (let (res, st1, sleeps) = g st in ((res, sleeps), st1))"

lemma write_only_relay: "write_only (relayed (relay_to_service connect copy endpoint))"
proof -
  let ?made = "attempts_of connect endpoint DEFAULT"
  let ?n = "of_nat (length (filter (counts_retry connect endpoint DEFAULT) ?made))"
  show ?thesis
  proof (cases "attempt_result connect endpoint DEFAULT (last ?made)")
    case (Inl e)
    show ?thesis
      by (rule write_onlyI [OF tallies_comp [OF tallies_counts(9) tallies_fields(2)]])
         (simp add: relayed_def relay_to_service_def connect_with_backoff_run Inl)
  next
    case (Inr c)
    show ?thesis
    proof (cases "copy c")
      case (Inl e)
      show ?thesis
        by (rule write_onlyI [OF tallies_counts(9)])
           (simp add: relayed_def relay_to_service_def connect_with_backoff_run Inr Inl)
    next
      case copied: (Inr b)
      show ?thesis
        by (rule write_onlyI [OF tallies_comp [OF tallies_counts(9) tallies_fields(3)]])
           (simp add: relayed_def relay_to_service_def connect_with_backoff_run Inr copied case_prod_unfold)
    qed
  qed
qed

lemma write_only_relayedE:
  assumes "write_only (relayed g)"
  obtains r sl f where "tallies f" "\<And>s. g s = (r, f s, sl)"
proof -
  obtain a f where f: "tallies f" "\<And>s. relayed g s = (a, f s)" using assms by (rule write_onlyE) blast
  have "g s = (fst a, f s, snd a)" for s
    using f(2) [of s] by (cases "g s") (auto simp: relayed_def)
  then show ?thesis using that f(1) by blast
qed

lemma write_only_termination:
  "write_only (relayed (proxy_with_tls_termination handshake connect copy sc endpoint cfg))"
proof (cases "handshake (dur_from_secs (unat (handshake_timeout_secs cfg))) sc")
  case (Handshake_ok alpn)
  obtain r sl f where f: "tallies f" "\<And>s. relay_to_service connect copy endpoint s = (r, f s, sl)"
    using write_only_relay by (rule write_only_relayedE) blast
  show ?thesis
    by (rule write_onlyI [OF tallies_comp [OF tallies_fields(6) f(1)]])
       (simp add: relayed_def proxy_with_tls_termination_def Handshake_ok f(2))
next
  case Handshake_error
  show ?thesis
    by (rule write_onlyI [OF tallies_fields(7)])
       (simp add: relayed_def proxy_with_tls_termination_def Handshake_error)
next
  case Handshake_timeout
  show ?thesis
    by (rule write_onlyI [OF tallies_fields(7)])
       (simp add: relayed_def proxy_with_tls_termination_def Handshake_timeout)
qed

lemma write_only_route_start: "write_only (route_start net r now stream)"
proof (cases "net_sniff net (dur_from_secs (unat (start_handshake_timeout_secs (rs_config (r_state r)))))
    (capturing_new stream)")
  case (Probe_io_error io)
  show ?thesis
    by (rule write_onlyI [OF tallies_fields(8)]) (simp add: route_start_def Probe_io_error)
next
  case (Probe_timeout io)
  show ?thesis
    by (rule write_onlyI [OF tallies_fields(9)]) (simp add: route_start_def Probe_timeout)
next
  case (Client_hello name io)
  let ?open = "case route_target (r_state r) name of Some _ \<Rightarrow> begin_proxied now | None \<Rightarrow> begin_fallback now"
  have "write_only ?open" using write_only_begin by (simp split: option.split)
  then obtain g f where f: "tallies f" "\<And>s. ?open s = (g, f s)" by (rule write_onlyE) blast
  have begun: "(case route_target (r_state r) name of
      Some _ \<Rightarrow> begin_proxied now st | None \<Rightarrow> begin_fallback now st) = (g, f st)" for st
    using f(2) [of st] by (simp split: option.splits)
  show ?thesis
    by (rule write_onlyI [OF tallies_comp [OF tallies_counts(5) f(1)]])
       (simp add: route_start_def Client_hello Let_def begun)
qed

lemma write_only_route_body: "write_only (route_body versions_ok lib net r sv)"
proof (cases "sv_target sv")
  case None
  let ?serve = "serve lib (net_handshake net (into_inner (sv_io sv))) (rs_server_config (sv_state sv))
    (r_site r) (rs_config (sv_state sv)) (net_requests net (into_inner (sv_io sv)))"
  obtain a f where f: "tallies f" "\<And>s. ?serve s = (a, f s)" using write_only_serve by (rule write_onlyE) blast
  show ?thesis by (rule write_onlyI [OF f(1)]) (simp add: route_body_def None f(2) Let_def)
next
  case (Some t)
  show ?thesis
  proof (cases "tls_passthrough t")
    case True
    let ?raw = "prefixed_new (fst (take_captured (sv_io sv))) (into_inner (snd (take_captured (sv_io sv))))"
    obtain a sl f where f: "tallies f"
      "\<And>s. relay_to_service (net_connect net) (net_copy_raw net ?raw) (upstream t) s = (a, f s, sl)"
      using write_only_relay by (rule write_only_relayedE) blast
    show ?thesis
      by (rule write_onlyI [OF f(1)]) (simp add: route_body_def Some True proxy_def f(2) case_prod_unfold Let_def)
  next
    case False
    let ?sc = "case alpn_protocols t of
        Some alpn \<Rightarrow> build_server_config versions_ok (r_cert_resolver r) alpn (rs_config (sv_state sv))
      | None \<Rightarrow> Inr (rs_server_config (sv_state sv))"
    show ?thesis
    proof (cases ?sc)
      case (Inl e)
      show ?thesis by (rule write_onlyI [OF tallies_id]) (simp add: route_body_def Some False Inl Let_def)
    next
      case (Inr sc)
      obtain a sl f where f: "tallies f"
        "\<And>s. proxy_with_tls_termination (net_handshake net (into_inner (sv_io sv))) (net_connect net)
          (net_copy_tls net (into_inner (sv_io sv)) sc) sc (upstream t) (rs_config (sv_state sv)) s = (a, f s, sl)"
        using write_only_termination by (rule write_only_relayedE) blast
      show ?thesis by (rule write_onlyI [OF f(1)]) (simp add: route_body_def Some False Inr f(2) Let_def)
    qed
  qed
qed


section \<open>The process does not look at its counters\<close>

definition with_stats :: "stats \<Rightarrow> ('cert, 'skey, 's, 'sem) system \<Rightarrow> ('cert, 'skey, 's, 'sem) system" where
  "with_stats st s = on_stats (\<lambda>_. st) s"

lemma with_stats_simps [simp]:
  "sys_stats (with_stats st s) = st" "with_stats (sys_stats s) s = s"
  "connection_slots (sys_limiter (with_stats st s)) = connection_slots (sys_limiter s)"
  "sys_ip (with_stats st s) = sys_ip s" "sys_rate (with_stats st s) = sys_rate s"
  "sys_router (with_stats st s) = sys_router s" "sys_resolver (with_stats st s) = sys_resolver s"
  "sys_config (with_stats st s) = sys_config s" "sys_reload (with_stats st s) = sys_reload s"
  "sys_metrics (with_stats st s) = sys_metrics s" "sys_accept (with_stats st s) = sys_accept s"
  "sys_tasks (with_stats st s) = sys_tasks s" "sys_next (with_stats st s) = sys_next s"
  by (simp_all add: with_stats_def on_stats_def)

lemma with_stats_moves [simp]:
  "on_stats f (with_stats st s) = with_stats (f st) s"
  "with_stats st (on_stats f s) = with_stats st s"
  "give_back_slot env (with_stats st s) = with_stats (uncount_slot st) (give_back_slot env s)"
  "set_task i t (with_stats st s) = with_stats st (set_task i t s)"
  "with_stats st s\<lparr>sys_ip := ip\<rparr> = with_stats st (s\<lparr>sys_ip := ip\<rparr>)"
  "with_stats st s\<lparr>sys_rate := rl\<rparr> = with_stats st (s\<lparr>sys_rate := rl\<rparr>)"
  "with_stats st s\<lparr>sys_accept := a\<rparr> = with_stats st (s\<lparr>sys_accept := a\<rparr>)"
  "with_stats st s\<lparr>sys_next := n\<rparr> = with_stats st (s\<lparr>sys_next := n\<rparr>)"
  "with_stats st s\<lparr>sys_reload := p\<rparr> = with_stats st (s\<lparr>sys_reload := p\<rparr>)"
  "with_stats st s\<lparr>sys_resolver := c\<rparr> = with_stats st (s\<lparr>sys_resolver := c\<rparr>)"
  "with_stats st s\<lparr>sys_router := r\<rparr> = with_stats st (s\<lparr>sys_router := r\<rparr>)"
  "with_stats st s\<lparr>sys_config := cfg\<rparr> = with_stats st (s\<lparr>sys_config := cfg\<rparr>)"
  by (simp_all add: with_stats_def on_stats_def give_back_slot_def drop_slot_def set_task_def Let_def)

lemma sys_stats_moves [simp]:
  "sys_stats (on_stats f s) = f (sys_stats s)" "sys_stats (set_task i t s) = sys_stats s"
  "sys_stats (give_back_slot env s) = uncount_slot (sys_stats s)"
  by (simp_all add: on_stats_def set_task_def give_back_slot_def drop_slot_def Let_def)

text \<open>A handler whose effect on the statistics is to count, and which does the same whatever they are.\<close>

definition oblivious ::
  "(('cert, 'skey, 's, 'sem) system \<Rightarrow> ('cert, 'skey, 's, 'sem) system) \<Rightarrow> ('cert, 'skey, 's, 'sem) system \<Rightarrow> bool" where
  "oblivious h s \<longleftrightarrow> (\<exists>f. tallies f \<and> (\<forall>st. h (with_stats st s) = with_stats (f st) (h s)))"

lemma obliviousI: "tallies f \<Longrightarrow> (\<And>st. h (with_stats st s) = with_stats (f st) (h s)) \<Longrightarrow> oblivious h s"
  unfolding oblivious_def by blast

lemma oblivious_accept_ok: "oblivious (accept_ok env now stream peer) s"
proof (cases "allow now (sa_ip peer) (sys_rate s)")
  case allow: (Pair allowed rate')
  show ?thesis
  proof (cases allowed)
    case False
    show ?thesis
      by (rule obliviousI [OF tallies_comp [OF tallies_counts(2) tallies_counts(3)]])
         (simp add: accept_ok_def allow False)
  next
    case True
    obtain slot ip' where ip: "try_acquire_slot (sa_ip peer) (sys_ip s) = (slot, ip')" by fastforce
    show ?thesis
    proof (cases slot)
      case None
      show ?thesis
        by (rule obliviousI [OF tallies_comp [OF tallies_counts(2) tallies_counts(4)]])
           (simp add: accept_ok_def allow True ip None)
    next
      case (Some a)
      show ?thesis
        by (rule obliviousI [OF tallies_id]) (simp add: accept_ok_def allow True ip Some)
    qed
  qed
qed

lemma oblivious_task_start: "oblivious (task_start env now i stream slot) s"
proof -
  obtain a f where f: "tallies f" "\<And>st. route_start (env_net env) (sys_router s) now stream st = (a, f st)"
    using write_only_route_start by (rule write_onlyE) blast
  show ?thesis by (rule obliviousI [OF f(1)]) (simp add: task_start_def f(2))
qed

lemma oblivious_task_body: "oblivious (task_body env i sv slot) s"
proof -
  obtain a f where f: "tallies f"
    "\<And>st. route_body (env_versions_ok env) (env_lib env) (env_net env) (sys_router s) sv st = (a, f st)"
    using write_only_route_body by (rule write_onlyE) blast
  show ?thesis by (rule obliviousI [OF f(1)]) (simp add: task_body_def f(2))
qed

lemma oblivious_task_end: "oblivious (task_end env now i t) s"
proof -
  show ?thesis
  proof (cases "task_guard t")
    case None
    show ?thesis
      by (rule obliviousI [OF tallies_counts(2)])
         (simp add: task_end_def None Let_def with_stats_def on_stats_def set_task_def drop_slot_def)
  next
    case (Some g)
    show ?thesis
      by (rule obliviousI [OF tallies_comp [OF tallies_drop_guard [of now g] tallies_counts(2)]])
         (simp add: task_end_def Some Let_def with_stats_def on_stats_def set_task_def drop_slot_def)
  qed
qed

lemma oblivious_accept_stop: "oblivious (accept_stop env) s"
proof (cases "sys_accept s = Holds_slot")
  case True
  show ?thesis by (rule obliviousI [OF tallies_counts(2)]) (simp add: accept_stop_def True)
next
  case False
  show ?thesis by (rule obliviousI [OF tallies_id]) (simp add: accept_stop_def False)
qed

lemma oblivious_others:
  "oblivious (\<lambda>s. snd (accept_error env s)) s" "oblivious (janitor_tick now) s"
  "oblivious (\<lambda>s. snd (reload_load env h p s)) s" "oblivious (reload_next env) s"
  by (rule obliviousI [OF tallies_counts(2)], simp add: accept_error_def)
     (rule obliviousI [OF tallies_id],
      simp add: janitor_tick_def reload_load_def reload_next_def Let_def split: sum.split reload_phase.split)+

lemma step_write_only:
  assumes "sys_step env s e s'"
  shows "\<exists>f. tallies f \<and> sys_stats s' = f (sys_stats s) \<and>
    (\<forall>st. sys_step env (with_stats st s) e (with_stats (f st) s'))"
proof -
  have by_handler: "\<exists>f. tallies f \<and> sys_stats (h s) = f (sys_stats s) \<and>
      (\<forall>st. sys_step env (with_stats st s) e (with_stats (f st) (h s)))"
    if h: "oblivious h s" and step: "\<And>st. sys_step env (with_stats st s) e (h (with_stats st s))" for h
  proof -
    obtain f where f: "tallies f" "\<And>st. h (with_stats st s) = with_stats (f st) (h s)"
      using h unfolding oblivious_def by blast
    have "sys_stats (h s) = f (sys_stats s)" using f(2) [of "sys_stats s"] by (metis with_stats_simps(1,2))
    then show ?thesis using f step by metis
  qed
  show ?thesis
    using assms
  proof cases
    case acquire
    then obtain cl where cl: "acquire_slot (env_sem env) (sys_limiter s) = Some cl"
      and s': "s' = s\<lparr>sys_limiter := cl, sys_accept := Holds_slot\<rparr>"
      by (cases "acquire_slot (env_sem env) (sys_limiter s)") (simp_all add: accept_acquire_def)
    then obtain sem' where sem: "sem_try (env_sem env) (connection_slots (sys_limiter s)) = Some sem'"
      and cl': "cl = (sys_limiter s)\<lparr>connection_slots := sem', limiter_stats := count_slot (sys_stats s)\<rparr>"
      by (cases "sem_try (env_sem env) (connection_slots (sys_limiter s))") (simp_all add: acquire_slot_def)
    have others: "accept_acquire env (with_stats st s) = Some (with_stats (count_slot st) s')" for st
      by (simp add: accept_acquire_def acquire_slot_def sem s' cl' with_stats_def on_stats_def)
    have stats: "sys_stats s' = count_slot (sys_stats s)" by (simp add: s' cl')
    have "sys_step env (with_stats st s) e (with_stats (count_slot st) s')" for st
      unfolding acquire(1) by (rule sys_step.acquire [OF _ others]) (simp add: acquire(2))
    then show ?thesis using stats tallies_counts(1) by blast
  next
    case accept_error
    show ?thesis unfolding accept_error(2)
      by (rule by_handler [OF oblivious_others(1)]) (simp add: accept_error sys_step.accept_error)
  next
    case (accept now stream peer)
    show ?thesis unfolding accept(2)
      by (rule by_handler [OF oblivious_accept_ok]) (simp add: accept sys_step.accept)
  next
    case (start i stream slot now)
    show ?thesis unfolding start(2)
      by (rule by_handler [OF oblivious_task_start]) (simp add: start sys_step.start)
  next
    case (body i sv slot)
    show ?thesis unfolding body(2)
      by (rule by_handler [OF oblivious_task_body]) (simp add: body sys_step.body)
  next
    case (finish i t now)
    show ?thesis unfolding finish(2)
      by (rule by_handler [OF oblivious_task_end]) (simp add: finish sys_step.finish)
  next
    case (sweep now)
    show ?thesis unfolding sweep(2)
      by (rule by_handler [OF oblivious_others(2)]) (simp add: sweep sys_step.sweep)
  next
    case (reload h p)
    show ?thesis unfolding reload(2)
      by (rule by_handler [OF oblivious_others(3)]) (simp add: reload sys_step.reload)
  next
    case reload_next
    show ?thesis unfolding reload_next(2)
      by (rule by_handler [OF oblivious_others(4)]) (unfold reload_next(1), rule sys_step.reload_next, use reload_next(3) in simp)
  next
    case watcher_ends
    have "oblivious (\<lambda>s. s\<lparr>sys_reload := Watcher_ended\<rparr>) s" by (rule obliviousI [OF tallies_id]) simp
    then show ?thesis unfolding watcher_ends(2)
      by (rule by_handler) (simp add: watcher_ends sys_step.watcher_ends del: with_stats_moves)
  next
    case shutdown
    show ?thesis unfolding shutdown(2)
      by (rule by_handler [OF oblivious_accept_stop]) (simp add: shutdown sys_step.shutdown)
  qed
qed

lemma run_write_only:
  assumes "sys_run env s es s'"
  shows "\<exists>f. tallies f \<and> sys_stats s' = f (sys_stats s) \<and>
    (\<forall>st. sys_run env (with_stats st s) es (with_stats (f st) s'))"
  using assms
proof (induction rule: sys_run.induct)
  case (run_nil s)
  show ?case by (rule exI [of _ "\<lambda>s. s"]) (simp add: tallies_id sys_run.run_nil)
next
  case (run_step s e s1 es s2)
  obtain f where f: "tallies f" "sys_stats s1 = f (sys_stats s)"
    "\<And>st. sys_step env (with_stats st s) e (with_stats (f st) s1)"
    using step_write_only [OF run_step.hyps(1)] by blast
  obtain g where g: "tallies g" "sys_stats s2 = g (sys_stats s1)"
    "\<And>st. sys_run env (with_stats st s1) es (with_stats (g st) s2)"
    using run_step.IH by blast
  have "sys_run env (with_stats st s) (e # es) (with_stats (g (f st)) s2)" for st
    by (rule sys_run.run_step [OF f(3) g(3)])
  then show ?case using tallies_comp [OF f(1) g(1)] f(2) g(2) by (intro exI [of _ "\<lambda>s. g (f s)"]) simp
qed


end
