(* ===== verification/Admission.thy ===== *)
theory Admission
  imports System_Runs
begin

text \<open>
  An abstract specification of what the process promises about admission (\<open>src/main.rs\<close>,
  \<open>src/limiter.rs\<close>), without limiters, counters or tasks: a set of admitted connections, one
  reservation, a capacity and a flag. The process refines it: each of its steps is one step of the
  specification or none (\<open>admission_step\<close>), and it can reserve exactly when the specification can.
\<close>

section \<open>The specification\<close>

record admission =
  adm_live :: "nat \<rightharpoonup> ip_addr"
  adm_reserved :: bool
  adm_closed :: bool

datatype adm_event = Reserve | Give_back | Admit nat ip_addr | Leave nat | Close

inductive adm_step :: "nat \<Rightarrow> admission \<Rightarrow> adm_event \<Rightarrow> admission \<Rightarrow> bool" for cap where
  reserve: "\<not> adm_closed a \<Longrightarrow> \<not> adm_reserved a \<Longrightarrow> card (dom (adm_live a)) < cap \<Longrightarrow>
    adm_step cap a Reserve (a\<lparr>adm_reserved := True\<rparr>)"
| give_back: "adm_reserved a \<Longrightarrow> adm_step cap a Give_back (a\<lparr>adm_reserved := False\<rparr>)"
| admit: "adm_reserved a \<Longrightarrow> adm_live a i = None \<Longrightarrow>
    adm_step cap a (Admit i ip) (a\<lparr>adm_live := (adm_live a)(i \<mapsto> ip), adm_reserved := False\<rparr>)"
| leave: "adm_live a i = Some ip \<Longrightarrow>
    adm_step cap a (Leave i) (a\<lparr>adm_live := (adm_live a)(i := None)\<rparr>)"
| close: "\<not> adm_closed a \<Longrightarrow> adm_step cap a Close (a\<lparr>adm_reserved := False, adm_closed := True\<rparr>)"

inductive_simps adm_step_reserve [simp]: "adm_step cap a Reserve a'"

inductive adm_run :: "nat \<Rightarrow> admission \<Rightarrow> adm_event list \<Rightarrow> admission \<Rightarrow> bool" for cap where
  adm_nil: "adm_run cap a [] a"
| adm_cons: "adm_step cap a l a' \<Longrightarrow> adm_run cap a' ls a'' \<Longrightarrow> adm_run cap a (l # ls) a''"

inductive_simps adm_run_simps [simp]: "adm_run cap a [] a'" "adm_run cap a (l # ls) a'"

lemma adm_run_append: "adm_run cap a ls a' \<Longrightarrow> adm_run cap a' ls' a'' \<Longrightarrow> adm_run cap a (ls @ ls') a''"
  by (induction rule: adm_run.induct) auto

text \<open>The promise: the capacity covers the connections and the reservation, and once closed the
  specification only lets connections leave.\<close>

definition adm_ok :: "nat \<Rightarrow> admission \<Rightarrow> bool" where
  "adm_ok cap a \<longleftrightarrow> finite (dom (adm_live a)) \<and>
     card (dom (adm_live a)) + of_bool (adm_reserved a) \<le> cap \<and> (adm_closed a \<longrightarrow> \<not> adm_reserved a)"

lemma adm_step_ok: "adm_step cap a l a' \<Longrightarrow> adm_ok cap a \<Longrightarrow> adm_ok cap a'"
proof (induction rule: adm_step.induct)
  case (admit a i ip)
  then have "i \<notin> dom (adm_live a)" by blast
  with admit show ?case by (simp add: adm_ok_def)
next
  case (leave a i ip)
  then have "card (dom (adm_live a) - {i}) \<le> card (dom (adm_live a))"
    by (intro card_mono) (auto simp: adm_ok_def)
  with leave show ?case by (auto simp: adm_ok_def)
qed (auto simp: adm_ok_def)

lemma adm_step_closed:
  "adm_step cap a l a' \<Longrightarrow> adm_ok cap a \<Longrightarrow> adm_closed a \<Longrightarrow> adm_closed a' \<and> (\<exists>i. l = Leave i)"
  by (induction rule: adm_step.induct) (auto simp: adm_ok_def)

lemma adm_run_ok: "adm_run cap a ls a' \<Longrightarrow> adm_ok cap a \<Longrightarrow> adm_ok cap a'"
  by (induction rule: adm_run.induct) (auto dest: adm_step_ok)

definition adm_init :: admission where
  "adm_init = \<lparr>adm_live = Map.empty, adm_reserved = False, adm_closed = False\<rparr>"

lemma adm_init_ok: "adm_ok cap adm_init"
  by (simp add: adm_ok_def adm_init_def)


section \<open>The process refines it\<close>

definition abs_admission :: "('cert, 'skey, 's, 'sem) system \<Rightarrow> admission" where
  "abs_admission s =
     \<lparr>adm_live = (\<lambda>i. map_option task_ip_slot (sys_tasks s i)),
      adm_reserved = (sys_accept s = Holds_slot), adm_closed = (sys_accept s = Stopped)\<rparr>"

lemma abs_live_dom [simp]: "dom (adm_live (abs_admission s)) = dom (sys_tasks s)"
  by (auto simp: abs_admission_def)

text \<open>The step of the specification that a step of the process makes, if any.\<close>

fun adm_label ::
  "('cert, 'der, 'skey, 's) event \<Rightarrow> ('cert, 'skey, 's, 'sem) system \<Rightarrow> ('cert, 'skey, 's, 'sem) system
    \<Rightarrow> adm_event option" where
  "adm_label Ev_acquire s s' = Some Reserve"
| "adm_label Ev_accept_error s s' = Some Give_back"
| "adm_label (Ev_accept now stream peer) s s' =
     Some (if sys_next s' = Suc (sys_next s) then Admit (sys_next s) (sa_ip peer) else Give_back)"
| "adm_label (Ev_end i now) s s' = Some (Leave i)"
| "adm_label Ev_shutdown s s' = Some Close"
| "adm_label _ s s' = None"

definition adm_move :: "nat \<Rightarrow> admission \<Rightarrow> adm_event option \<Rightarrow> admission \<Rightarrow> bool" where
  "adm_move cap a l a' \<longleftrightarrow> (case l of None \<Rightarrow> a' = a | Some l \<Rightarrow> adm_step cap a l a')"

lemma admission_step:
  assumes "sys_step env s e s'" "sys_tasks s (sys_next s) = None"
    and "sys_accept s = Needs_slot \<Longrightarrow> accept_acquire env s \<noteq> None \<Longrightarrow> card (dom (sys_tasks s)) < cap"
  shows "adm_move cap (abs_admission s) (adm_label e s s') (abs_admission s')"
  using assms
proof (induction rule: sys_step.induct)
  case (acquire s s')
  then have "sys_tasks s' = sys_tasks s" "sys_accept s' = Holds_slot"
    by (auto simp: accept_acquire_def split: option.splits)
  moreover have "dom (\<lambda>i. map_option task_ip_slot (sys_tasks s i)) = dom (sys_tasks s)" by auto
  ultimately show ?case using acquire by (simp add: adm_move_def abs_admission_def)
next
  case (accept_error s)
  then show ?case
    using give_back [of "abs_admission s" cap]
    by (simp add: adm_move_def abs_admission_def accept_error_def give_back_slot_def)
next
  case (accept s now stream peer)
  show ?case
  proof (cases "sys_next (accept_ok env now stream peer s) = Suc (sys_next s)")
    case True
    then have "sys_tasks (accept_ok env now stream peer s) = (sys_tasks s)(sys_next s \<mapsto> Spawned stream (sa_ip peer))"
      "sys_accept (accept_ok env now stream peer s) = Needs_slot"
      by (auto simp: accept_ok_def give_back_slot_def try_acquire_slot_def Let_def case_prod_unfold
          split: option.splits if_splits)
    then show ?thesis
      using accept True admit [of "abs_admission s" "sys_next s" cap "sa_ip peer"]
      by (simp add: adm_move_def abs_admission_def fun_upd_def if_distrib [of "map_option task_ip_slot"] cong: if_cong)
  next
    case False
    then have "sys_tasks (accept_ok env now stream peer s) = sys_tasks s"
      "sys_accept (accept_ok env now stream peer s) = Needs_slot"
      by (auto simp: accept_ok_def give_back_slot_def Let_def case_prod_unfold split: option.splits if_splits)
    then show ?thesis
      using accept False give_back [of "abs_admission s" cap] by (simp add: adm_move_def abs_admission_def)
  qed
next
  case (start s i stream slot now)
  then show ?case
    by (auto simp: adm_move_def abs_admission_def task_start_def Let_def case_prod_unfold fun_eq_iff
        split: started.split)
next
  case (body s i sv slot)
  then show ?case
    by (auto simp: adm_move_def abs_admission_def task_body_def Let_def case_prod_unfold fun_eq_iff)
next
  case (finish s i t now)
  have "sys_tasks (task_end env now i t s) = (sys_tasks s)(i := None)"
    "sys_accept (task_end env now i t s) = sys_accept s"
    by (simp_all add: task_end_def Let_def split: option.split)
  then show ?case
    using finish leave [of "abs_admission s" i "task_ip_slot t" cap]
    by (simp add: adm_move_def abs_admission_def fun_upd_def if_distrib [of "map_option task_ip_slot"] cong: if_cong)
next
  case (shutdown s)
  then show ?case
    using close [of "abs_admission s" cap]
    by (cases "sys_accept s") (simp_all add: adm_move_def abs_admission_def accept_stop_def give_back_slot_def)
qed (simp_all add: adm_move_def abs_admission_def janitor_tick_def reload_load_def reload_next_def Let_def
    split: sum.split reload_phase.split)


section \<open>Along runs\<close>

text \<open>The connections a run of the specification admits, in order.\<close>

fun admitted :: "adm_event list \<Rightarrow> nat list" where
  "admitted [] = []"
| "admitted (Admit i ip # ls) = i # admitted ls"
| "admitted (_ # ls) = admitted ls"

lemma admitted_append [simp]: "admitted (ls @ ls') = admitted ls @ admitted ls'"
  by (induction ls rule: admitted.induct) simp_all

text \<open>A step of the process numbers the connection it admits, and only that step counts.\<close>

lemma label_admitted:
  assumes "sys_step env s e s'"
  shows "[0..<sys_next s'] = [0..<sys_next s] @ admitted (case adm_label e s s' of None \<Rightarrow> [] | Some l \<Rightarrow> [l])"
  using assms
proof (induction rule: sys_step.induct)
  case (accept s now stream peer)
  have "sys_next (accept_ok env now stream peer s) \<in> {sys_next s, Suc (sys_next s)}"
    by (auto simp: accept_ok_def give_back_slot_def Let_def case_prod_unfold split: option.splits)
  then show ?case by auto
next
  case (acquire s s')
  then show ?case by (auto simp: accept_acquire_def split: option.splits)
qed (simp_all add: accept_error_def give_back_slot_def task_start_def task_body_def task_end_def accept_stop_def
    janitor_tick_def reload_load_def reload_next_def Let_def case_prod_unfold
    split: sum.split reload_phase.split started.split option.split)

lemma admission_moves:
  assumes "sys_inv permits cap s" "semaphore_ok (env_sem env) permits" "sys_step env s e s'"
  shows "adm_move cap (abs_admission s) (adm_label e s s') (abs_admission s')"
proof (rule admission_step [OF assms(3)])
  show "sys_tasks s (sys_next s) = None" by (rule sys_invD(2) [OF assms(1)])
next
  assume "sys_accept s = Needs_slot" "accept_acquire env s \<noteq> None"
  then show "card (dom (sys_tasks s)) < cap"
    using inv_waits [OF assms(1,2)] by (simp add: slots_held_tasks)
qed

lemma admission_run:
  assumes "sys_run env s es s'" "sys_inv permits cap s" "semaphore_ok (env_sem env) permits"
  shows "\<exists>ls. adm_run cap (abs_admission s) ls (abs_admission s') \<and>
    [0..<sys_next s'] = [0..<sys_next s] @ admitted ls"
  using assms
proof (induction rule: sys_run.induct)
  case (run_nil s)
  show ?case by (rule exI [of _ "[]"]) simp
next
  case (run_step s e s' es s'')
  let ?l = "case adm_label e s s' of None \<Rightarrow> [] | Some l \<Rightarrow> [l]"
  have "adm_move cap (abs_admission s) (adm_label e s s') (abs_admission s')"
    by (rule admission_moves) fact+
  then have "adm_run cap (abs_admission s) ?l (abs_admission s')"
    by (auto simp: adm_move_def split: option.splits)
  moreover obtain ls where "adm_run cap (abs_admission s') ls (abs_admission s'')"
    "[0..<sys_next s''] = [0..<sys_next s'] @ admitted ls"
    using run_step sys_step_inv by blast
  ultimately show ?case
    using adm_run_append label_admitted [OF run_step.hyps(1)] by (intro exI [of _ "?l @ ls"]) auto
qed

lemma startup_admission:
  assumes "startup env h p dirs install_ok bind_ok wall now = Inr s"
  shows "abs_admission s = adm_init" "sys_next s = 0"
  by (rule startup_Inr [OF assms], simp add: abs_admission_def adm_init_def)+

text \<open>The specification is deterministic, so a step of the process with the right label makes its move.
  What the specification offers, admitting aside, the process can do.\<close>

lemma adm_step_det: "adm_step cap a l a' \<Longrightarrow> adm_step cap a l a'' \<Longrightarrow> a'' = a'"
  by (induction rule: adm_step.induct) (auto elim: adm_step.cases)

lemma admission_offers:
  assumes "sys_inv permits cap s" "semaphore_ok (env_sem env) permits"
    and "adm_step cap (abs_admission s) l a'" "\<forall>i ip. l \<noteq> Admit i ip"
  shows "\<exists>(e :: ('cert, 'der, 'skey, 's) event) s'.
    sys_step env s e s' \<and> adm_label e s s' = Some l \<and> abs_admission s' = a'"
proof -
  have "\<exists>(e :: ('cert, 'der, 'skey, 's) event) s'. sys_step env s e s' \<and> adm_label e s s' = Some l"
    using assms(3)
  proof cases
    case reserve
    then have "sys_accept s = Needs_slot" by (cases "sys_accept s") (simp_all add: abs_admission_def)
    moreover from this have "accept_acquire env s \<noteq> None"
      using reserve inv_waits(1) [OF assms(1,2)] by (simp add: slots_held_tasks)
    ultimately show ?thesis using reserve sys_step.acquire by fastforce
  next
    case give_back
    then show ?thesis using sys_step.accept_error [of s env] by (fastforce simp: abs_admission_def)
  next
    case (leave i ip)
    then show ?thesis using sys_step.finish [of s i] by (fastforce simp: abs_admission_def)
  next
    case close
    then show ?thesis using sys_step.shutdown [of s env] by (fastforce simp: abs_admission_def)
  qed (use assms(4) in simp)
  then obtain e :: "('cert, 'der, 'skey, 's) event" and s' where step: "sys_step env s e s'" "adm_label e s s' = Some l" by blast
  moreover have "abs_admission s' = a'"
    using admission_moves [OF assms(1,2) step(1)] step(2) adm_step_det [OF assms(3)] by (simp add: adm_move_def)
  ultimately show ?thesis by blast
qed

end
