(* ===== verification/Metrics_Api.thy ===== *)
theory Metrics_Api
  imports Config Stats Http_Util
begin

text \<open>
  \<open>src/metrics.rs\<close>, the endpoint: the snapshot of the counters, its rendering in the Prometheus text
  format, and the loopback-only HTTP server. The JSON form of the snapshot (\<open>serde_json\<close>) and
  the requests hyper reads are parameters.

  The lemmas read the rendered page back: its lines are exactly the lines of its metrics, every
  sample line splits at its last blank into the series and the decimal value, and no series is
  rendered twice.
\<close>

section \<open>The snapshot\<close>

record connections_snapshot =
  cs_proxied_total :: u64
  cs_fallback_total :: u64
  cs_proxied_completed_total :: u64
  cs_fallback_completed_total :: u64
  cs_active_proxied :: i64
  cs_active_fallback :: i64
  cs_proxied_duration_ms_sum :: u64
  cs_fallback_duration_ms_sum :: u64
  cs_probe_timeout_total :: u64
  cs_probe_io_error_total :: u64
  cs_connections_limit :: u64
  cs_connections_available :: u64
  cs_ip_limit_total :: u64
  cs_rate_limit_total :: u64

record client_hello_snapshot =
  chs_sni_present_total :: u64
  chs_sni_absent_total :: u64

record proxy_snapshot =
  ps_bytes_client_to_service_total :: u64
  ps_bytes_service_to_client_total :: u64
  ps_service_connect_failures_total :: u64
  ps_service_connect_retries_total :: u64

record tls_snapshot =
  ts_fallback_handshake_success_total :: u64
  ts_fallback_handshake_failure_total :: u64
  ts_fallback_alpn_h2_total :: u64
  ts_fallback_alpn_http1_total :: u64
  ts_fallback_alpn_none_total :: u64
  ts_proxy_handshake_success_total :: u64
  ts_proxy_handshake_failure_total :: u64

record http_snapshot =
  hs_method_get_total :: u64
  hs_method_head_total :: u64
  hs_method_options_total :: u64
  hs_method_other_total :: u64
  hs_status_200_total :: u64
  hs_status_204_total :: u64
  hs_status_304_total :: u64
  hs_status_404_total :: u64
  hs_status_405_total :: u64
  hs_status_other_total :: u64
  hs_bytes_sent_total :: u64

record config_snapshot =
  cfs_routes_count :: nat
  cfs_tls_profile :: string

record metrics_snapshot =
  ms_uptime_seconds :: f64
  ms_connections :: connections_snapshot
  ms_clienthello :: client_hello_snapshot
  ms_proxy :: proxy_snapshot
  ms_tls :: tls_snapshot
  ms_http :: http_snapshot
  ms_config :: config_snapshot

definition u64_saturating_sub :: "u64 \<Rightarrow> u64 \<Rightarrow> u64" where
  "u64_saturating_sub a b = (if b \<le> a then a - b else 0)"

lemma unat_u64_saturating_sub: "unat (u64_saturating_sub a b) = unat a - unat b"
  by (simp add: u64_saturating_sub_def unat_sub word_le_nat_alt)

definition snapshot_connections :: "stats \<Rightarrow> service_config \<Rightarrow> connections_snapshot" where
  "snapshot_connections st cfg =
     \<lparr>cs_proxied_total = connections_proxied_total st,
      cs_fallback_total = connections_fallback_total st,
      cs_proxied_completed_total = connections_proxied_completed_total st,
      cs_fallback_completed_total = connections_fallback_completed_total st,
      cs_active_proxied = active_proxied st,
      cs_active_fallback = active_fallback st,
      cs_proxied_duration_ms_sum = proxy_connection_duration_ms_total st,
      cs_fallback_duration_ms_sum = fallback_connection_duration_ms_total st,
      cs_probe_timeout_total = connections_probe_timeout_total st,
      cs_probe_io_error_total = connections_probe_io_error_total st,
      cs_connections_limit = max_connections cfg,
      cs_connections_available = u64_saturating_sub (max_connections cfg) (connections st),
      cs_ip_limit_total = connections_rejected_ip_limit_total st,
      cs_rate_limit_total = connections_rejected_rate_limit_total st\<rparr>"

definition snapshot_client_hello :: "stats \<Rightarrow> service_config \<Rightarrow> client_hello_snapshot" where
  "snapshot_client_hello st cfg =
     \<lparr>chs_sni_present_total = sni_present_total st,
      chs_sni_absent_total = sni_absent_total st\<rparr>"

definition snapshot_proxy :: "stats \<Rightarrow> service_config \<Rightarrow> proxy_snapshot" where
  "snapshot_proxy st cfg =
     \<lparr>ps_bytes_client_to_service_total = proxy_bytes_client_to_service_total st,
      ps_bytes_service_to_client_total = proxy_bytes_service_to_client_total st,
      ps_service_connect_failures_total = proxy_service_connect_failures_total st,
      ps_service_connect_retries_total = proxy_service_connect_retries_total st\<rparr>"

definition snapshot_tls :: "stats \<Rightarrow> service_config \<Rightarrow> tls_snapshot" where
  "snapshot_tls st cfg =
     \<lparr>ts_fallback_handshake_success_total = fallback_tls_handshake_success_total st,
      ts_fallback_handshake_failure_total = fallback_tls_handshake_failure_total st,
      ts_fallback_alpn_h2_total = fallback_alpn_h2_total st,
      ts_fallback_alpn_http1_total = fallback_alpn_http1_total st,
      ts_fallback_alpn_none_total = fallback_alpn_none_total st,
      ts_proxy_handshake_success_total = proxy_tls_handshake_success_total st,
      ts_proxy_handshake_failure_total = proxy_tls_handshake_failure_total st\<rparr>"

definition snapshot_http :: "stats \<Rightarrow> service_config \<Rightarrow> http_snapshot" where
  "snapshot_http st cfg =
     \<lparr>hs_method_get_total = http_method_get_total st,
      hs_method_head_total = http_method_head_total st,
      hs_method_options_total = http_method_options_total st,
      hs_method_other_total = http_method_other_total st,
      hs_status_200_total = http_status_200_total st,
      hs_status_204_total = http_status_204_total st,
      hs_status_304_total = http_status_304_total st,
      hs_status_404_total = http_status_404_total st,
      hs_status_405_total = http_status_405_total st,
      hs_status_other_total = http_status_other_total st,
      hs_bytes_sent_total = http_bytes_sent_total st\<rparr>"

definition snapshot_config :: "stats \<Rightarrow> service_config \<Rightarrow> config_snapshot" where
  "snapshot_config st cfg =
     \<lparr>cfs_routes_count = length (routes cfg),
      cfs_tls_profile = tls_min_version cfg\<rparr>"

definition snapshot :: "instant \<Rightarrow> stats \<Rightarrow> service_config \<Rightarrow> metrics_snapshot" where
  "snapshot now st cfg =
     \<lparr>ms_uptime_seconds = uptime_seconds now st,
      ms_connections = snapshot_connections st cfg,
      ms_clienthello = snapshot_client_hello st cfg,
      ms_proxy = snapshot_proxy st cfg,
      ms_tls = snapshot_tls st cfg,
      ms_http = snapshot_http st cfg,
      ms_config = snapshot_config st cfg\<rparr>"


section \<open>Rendering\<close>

datatype metric_value = Val_U u64 | Val_I i64 | Val_F f64

definition show_value :: "metric_value \<Rightarrow> string" where
  "show_value v =
     (case v of Val_U n \<Rightarrow> show_nat (unat n) | Val_I n \<Rightarrow> show_int (sint n) | Val_F x \<Rightarrow> fmt_f64_3 x)"

type_synonym label = "string \<times> string"
type_synonym sample = "label list \<times> metric_value"
type_synonym metric = "string \<times> string \<times> string \<times> sample list"

definition newline :: char where
  "newline = CHR 0x0A"

definition show_label :: "label \<Rightarrow> string" where
  "show_label l = fst l @ ''='' @ ''\"'' @ snd l @ ''\"''"

text \<open>The labels with a comma before every one but the first.\<close>

fun label_str :: "label list \<Rightarrow> string" where
  "label_str [] = []"
| "label_str [l] = show_label l"
| "label_str (l # ls) = show_label l @ CHR '','' # label_str ls"

definition series :: "string \<Rightarrow> label list \<Rightarrow> string" where
  "series name labels = (if labels = [] then name else name @ ''{'' @ label_str labels @ ''}'')"

definition sample_line :: "string \<Rightarrow> sample \<Rightarrow> string" where
  "sample_line name s = series name (fst s) @ '' '' @ show_value (snd s)"

definition writeln :: "string \<Rightarrow> string \<Rightarrow> string" where
  "writeln out l = out @ l @ [newline]"

definition push_metric :: "string \<Rightarrow> string \<Rightarrow> string \<Rightarrow> string \<Rightarrow> sample list \<Rightarrow> string" where
  "push_metric out name metric_type help samples =
     (let out1 = writeln out (''# HELP '' @ name @ '' '' @ help);
          out2 = writeln out1 (''# TYPE '' @ name @ '' '' @ metric_type);
          out3 = fold (\<lambda>s out. writeln out (sample_line name s)) samples out2
      in out3 @ [newline])"

text \<open>The calls of \<open>push_metric\<close>, in order.\<close>

definition connection_metrics :: "metrics_snapshot \<Rightarrow> metric list" where
  "connection_metrics s =
     [(''reprox_uptime_seconds'', ''gauge'',
       ''Time in seconds since the process started.'',
        [([], Val_F (ms_uptime_seconds s))]),
      (''reprox_connections_total'', ''counter'',
       ''Total TCP connections accepted, by route.'',
        [([(''route'', ''proxied'')], Val_U (cs_proxied_total (ms_connections s))),
         ([(''route'', ''fallback'')], Val_U (cs_fallback_total (ms_connections s)))]),
      (''reprox_connections_active'', ''gauge'',
       ''Connections currently being served, by route.'',
        [([(''route'', ''proxied'')], Val_I (cs_active_proxied (ms_connections s))),
         ([(''route'', ''fallback'')], Val_I (cs_active_fallback (ms_connections s)))]),
      (''reprox_connection_duration_ms_sum'', ''counter'',
       ''Total time spent serving completed connections, by route, in milliseconds.'',
        [([(''route'', ''proxied'')], Val_U (cs_proxied_duration_ms_sum (ms_connections s))),
         ([(''route'', ''fallback'')], Val_U (cs_fallback_duration_ms_sum (ms_connections s)))]),
      (''reprox_connection_duration_ms_count'', ''counter'',
       (''Number of completed connections included in connection_duration_ms_sum, by '' @
        ''route.''),
        [([(''route'', ''proxied'')], Val_U (cs_proxied_completed_total (ms_connections s))),
         ([(''route'', ''fallback'')], Val_U (cs_fallback_completed_total (ms_connections s)))]),
      (''reprox_connections_rejected_total'', ''counter'',
       ''Connections that never produced a usable ClientHello.'',
        [([(''reason'', ''probe_timeout'')], Val_U (cs_probe_timeout_total (ms_connections s))),
         ([(''reason'', ''probe_io_error'')], Val_U (cs_probe_io_error_total (ms_connections s))),
         ([(''reason'', ''ip_limit'')], Val_U (cs_ip_limit_total (ms_connections s))),
         ([(''reason'', ''rate_limit'')], Val_U (cs_rate_limit_total (ms_connections s)))]),
      (''reprox_connections_limit'', ''gauge'',
       (''Configured cap on connections handled at once, across both routes '' @
        ''(max_connections).''),
        [([], Val_U (cs_connections_limit (ms_connections s)))]),
      (''reprox_connections_available'', ''gauge'',
       (''Connections currently free out of reprox_connections_limit. A sustained 0 '' @
        ''means max_connections is the current bottleneck.''),
        [([], Val_U (cs_connections_available (ms_connections s)))])]"

definition proxy_metrics :: "metrics_snapshot \<Rightarrow> metric list" where
  "proxy_metrics s =
     [(''reprox_clienthello_total'', ''counter'',
       ''ClientHello classification results (see sni::ProbeResult).'',
        [([(''result'', ''sni_present'')], Val_U (chs_sni_present_total (ms_clienthello s))),
         ([(''result'', ''sni_absent'')], Val_U (chs_sni_absent_total (ms_clienthello s)))]),
      (''reprox_proxy_bytes_total'', ''counter'',
       ''Bytes relayed between clients and service.'',
        [([(''direction'', ''client_to_service'')], Val_U (ps_bytes_client_to_service_total (ms_proxy s))),
         ([(''direction'', ''service_to_client'')], Val_U (ps_bytes_service_to_client_total (ms_proxy s)))]),
      (''reprox_proxy_service_connect_failures_total'', ''counter'',
       (''Connections that could not reach the local service instance after exhausting '' @
        ''connect retries (see reprox_proxy_service_connect_retries_total). A non-zero '' @
        ''rate usually means the service is down or misconfigured.''),
        [([], Val_U (ps_service_connect_failures_total (ms_proxy s)))]),
      (''reprox_proxy_service_connect_retries_total'', ''counter'',
       (''Individual failed connect attempts to the local service that were retried '' @
        ''with backoff (excludes each route's final, giving-up attempt, which is '' @
        ''counted in reprox_proxy_service_connect_failures_total instead). A high rate '' @
        ''here relative to the failures counter means the service is usually just '' @
        ''briefly slow to accept, not actually down.''),
        [([], Val_U (ps_service_connect_retries_total (ms_proxy s)))]),
      (''reprox_fallback_tls_handshakes_total'', ''counter'',
       ''Fallback-path TLS handshake outcomes.'',
        [([(''result'', ''success'')], Val_U (ts_fallback_handshake_success_total (ms_tls s))),
         ([(''result'', ''failure'')], Val_U (ts_fallback_handshake_failure_total (ms_tls s)))]),
      (''reprox_fallback_alpn_selected_total'', ''counter'',
       ''Negotiated ALPN protocol on the fallback path.'',
        [([(''protocol'', ''h2'')], Val_U (ts_fallback_alpn_h2_total (ms_tls s))),
         ([(''protocol'', ''http1'')], Val_U (ts_fallback_alpn_http1_total (ms_tls s))),
         ([(''protocol'', ''none'')], Val_U (ts_fallback_alpn_none_total (ms_tls s)))]),
      (''reprox_proxy_tls_handshakes_total'', ''counter'',
       ''Proxy-path TLS handshake outcomes.'',
        [([(''result'', ''success'')], Val_U (ts_proxy_handshake_success_total (ms_tls s))),
         ([(''result'', ''failure'')], Val_U (ts_proxy_handshake_failure_total (ms_tls s)))])]"

definition http_metrics :: "metrics_snapshot \<Rightarrow> metric list" where
  "http_metrics s =
     [(''reprox_http_requests_total'', ''counter'',
       ''Fallback-site HTTP requests, by method.'',
        [([(''method'', ''GET'')], Val_U (hs_method_get_total (ms_http s))),
         ([(''method'', ''HEAD'')], Val_U (hs_method_head_total (ms_http s))),
         ([(''method'', ''OPTIONS'')], Val_U (hs_method_options_total (ms_http s))),
         ([(''method'', ''other'')], Val_U (hs_method_other_total (ms_http s)))]),
      (''reprox_http_responses_total'', ''counter'',
       ''Fallback-site HTTP responses, by status code.'',
        [([(''status'', ''200'')], Val_U (hs_status_200_total (ms_http s))),
         ([(''status'', ''204'')], Val_U (hs_status_204_total (ms_http s))),
         ([(''status'', ''304'')], Val_U (hs_status_304_total (ms_http s))),
         ([(''status'', ''404'')], Val_U (hs_status_404_total (ms_http s))),
         ([(''status'', ''405'')], Val_U (hs_status_405_total (ms_http s))),
         ([(''status'', ''other'')], Val_U (hs_status_other_total (ms_http s)))]),
      (''reprox_http_response_bytes_total'', ''counter'',
       (''Approximate response body bytes sent by the fallback site (read from '' @
        ''Content-Length).''),
        [([], Val_U (hs_bytes_sent_total (ms_http s)))]),
      (''reprox_config_secret_domains'', ''gauge'',
       ''Number of service routes currently configured.'',
        [([], Val_U (of_nat (cfs_routes_count (ms_config s))))])]"

definition all_metrics :: "metrics_snapshot \<Rightarrow> metric list" where
  "all_metrics s = connection_metrics s @ proxy_metrics s @ http_metrics s"

definition render_prometheus :: "instant \<Rightarrow> stats \<Rightarrow> service_config \<Rightarrow> string" where
  "render_prometheus now st cfg =
     (let s = snapshot now st cfg in
      fold (\<lambda>(name, metric_type, help, samples) out. push_metric out name metric_type help samples)
        (all_metrics s) [])"


section \<open>The server\<close>

definition plain_response :: "nat \<Rightarrow> string \<Rightarrow> response" where
  "plain_response code body =
     \<lparr>status = code, resp_headers = [''content-type'' \<mapsto> ''text/plain; charset=utf-8''],
      resp_body = full_body body\<rparr>"

definition handle_request ::
  "(metrics_snapshot \<Rightarrow> string option) \<Rightarrow> instant \<Rightarrow> http_request \<Rightarrow> stats \<Rightarrow> service_config \<Rightarrow> response" where
  "handle_request to_string_pretty now req st cfg =
     (if req_method req \<noteq> ''GET'' then plain_response 405 (''method not allowed'' @ [newline])
      else if req_path req = ''/metrics'' then
        \<lparr>status = 200,
         resp_headers = [''content-type'' \<mapsto> ''text/plain; version=0.0.4; charset=utf-8''],
         resp_body = full_body (render_prometheus now st cfg)\<rparr>
      else if req_path req = ''/metrics.json'' then
        (let body = (case to_string_pretty (snapshot now st cfg) of Some b \<Rightarrow> b | None \<Rightarrow> ''{}'')
         in \<lparr>status = 200,
             resp_headers = [''content-type'' \<mapsto> ''application/json; charset=utf-8''],
             resp_body = full_body body\<rparr>)
      else if req_path req = ''/healthz'' then plain_response 200 (''ok'' @ [newline])
      else plain_response 404 (''not found'' @ [newline]))"

datatype metrics_error = Not_loopback socket_addr | Bind_failed | Accept_failed

text \<open>The accept loop: an accepted connection with all the requests it will carry, each with the time
  and the counters it is answered from, or a failing \<open>accept\<close>, which ends the loop (a task that has
  been spawned answers its requests all the same). The result is what was answered on every
  connection, and the error if there was one.\<close>

type_synonym metrics_request = "instant \<times> stats \<times> http_request"

datatype metrics_event = Metrics_connection "metrics_request list" | Metrics_accept_error

definition serve_requests ::
  "(metrics_snapshot \<Rightarrow> string option) \<Rightarrow> service_config \<Rightarrow> metrics_request list \<Rightarrow> response list" where
  "serve_requests js cfg reqs = map (\<lambda>(now, st, req). handle_request js now req st cfg) reqs"

fun metrics_loop ::
  "(metrics_snapshot \<Rightarrow> string option) \<Rightarrow> service_config \<Rightarrow> metrics_event list
    \<Rightarrow> response list list \<times> metrics_error option" where
  "metrics_loop js cfg [] = ([], None)"
| "metrics_loop js cfg (Metrics_accept_error # es) = ([], Some Accept_failed)"
| "metrics_loop js cfg (Metrics_connection reqs # es) =
     (let (served, e) = metrics_loop js cfg es in (serve_requests js cfg reqs # served, e))"

definition metrics_serve ::
  "(metrics_snapshot \<Rightarrow> string option) \<Rightarrow> (socket_addr \<Rightarrow> bool) \<Rightarrow> socket_addr \<Rightarrow> service_config
    \<Rightarrow> metrics_event list \<Rightarrow> response list list \<times> metrics_error option" where
  "metrics_serve js bind addr cfg es =
     (if \<not> is_loopback (sa_ip addr) then ([], Some (Not_loopback addr))
      else if \<not> bind addr then ([], Some Bind_failed)
      else metrics_loop js cfg es)"

section \<open>Reading the page back\<close>

definition metric_lines :: "metric \<Rightarrow> string list" where
  "metric_lines m =
     (case m of (name, metric_type, help, samples) \<Rightarrow>
        [''# HELP '' @ name @ '' '' @ help, ''# TYPE '' @ name @ '' '' @ metric_type]
        @ map (sample_line name) samples @ [[]])"

definition unlines :: "string list \<Rightarrow> string" where
  "unlines ls = concat (map (\<lambda>l. l @ [newline]) ls)"

lemma unlines_simps [simp]:
  "unlines [] = []" "unlines (l # ls) = l @ newline # unlines ls"
  "unlines (ls @ ls') = unlines ls @ unlines ls'"
  by (simp_all add: unlines_def)

fun lines_acc :: "string \<Rightarrow> string \<Rightarrow> string list" where
  "lines_acc cur [] = (if cur = [] then [] else [rev cur])"
| "lines_acc cur (c # cs) =
     (if c = newline then rev cur # lines_acc [] cs else lines_acc (c # cur) cs)"

text \<open>The lines of a text, as a scraper reads them.\<close>

definition lines_of :: "string \<Rightarrow> string list" where
  "lines_of s = lines_acc [] s"

lemma lines_acc_line:
  "newline \<notin> set l \<Longrightarrow> lines_acc cur (l @ newline # s) = (rev cur @ l) # lines_acc [] s"
  by (induction l arbitrary: cur) auto

lemma lines_of_unlines: "\<forall>l \<in> set ls. newline \<notin> set l \<Longrightarrow> lines_of (unlines ls) = ls"
  by (induction ls) (simp_all add: lines_of_def lines_acc_line)

lemma fold_writeln: "fold (\<lambda>s out. writeln out (f s)) ss out = out @ unlines (map f ss)"
  by (induction ss arbitrary: out) (simp_all add: writeln_def)

lemma push_metric_lines:
  "push_metric out name ty help samples = out @ unlines (metric_lines (name, ty, help, samples))"
  by (simp add: push_metric_def metric_lines_def Let_def fold_writeln) (simp add: writeln_def)

lemma render_lines:
  "render_prometheus now st cfg = unlines (concat (map metric_lines (all_metrics (snapshot now st cfg))))"
proof -
  have "fold (\<lambda>(name, ty, help, samples) out. push_metric out name ty help samples) ms out =
      out @ unlines (concat (map metric_lines ms))" for ms out
    by (induction ms arbitrary: out) (auto simp: push_metric_lines)
  then show ?thesis by (simp add: render_prometheus_def Let_def)
qed

text \<open>No blank and no line break occurs in a value.\<close>

definition solid :: "string \<Rightarrow> bool" where
  "solid s \<longleftrightarrow> list_all (\<lambda>c. c \<noteq> CHR '' '' \<and> c \<noteq> newline) s"

lemma solid_append [simp]: "solid (a @ b) \<longleftrightarrow> solid a \<and> solid b"
  by (simp add: solid_def)

lemma solid_Cons [simp]:
  "solid []" "solid (c # s) \<longleftrightarrow> c \<noteq> CHR '' '' \<and> c \<noteq> newline \<and> solid s"
  by (simp_all add: solid_def)

lemma solid_digits: "\<forall>d \<in> set ds. d < 10 \<Longrightarrow> solid (map digit_char ds)"
proof -
  assume ds: "\<forall>d \<in> set ds. d < 10"
  have "digit_char d \<noteq> CHR '' '' \<and> digit_char d \<noteq> newline" if "d < 10" for d
    using of_char_digit_char [of d] that by (auto simp: newline_def)
  then show ?thesis using ds by (auto simp: solid_def list_all_iff)
qed

lemma solid_show_nat [simp]: "solid (show_nat n)"
  unfolding show_nat_def by (rule solid_digits) (use digits_less [of 10] in auto)

lemma solid_pad3: "solid (pad3 (n mod 1000))"
  unfolding pad3_def by (rule solid_digits) (auto simp: div_less_iff_less_mult)

lemma solid_show_value [simp]: "solid (show_value v)"
  using solid_pad3
  by (auto simp: show_value_def show_int_def fmt_f64_3_def show_thousandths_def newline_def
      split: metric_value.split f64.split)

lemma solid_iff: "solid s \<longleftrightarrow> CHR '' '' \<notin> set s \<and> newline \<notin> set s"
  by (auto simp: solid_def list_all_iff)

lemma sample_line_split: "rsplit_once CHR '' '' (sample_line name s) = Some (series name (fst s), show_value (snd s))"
  using solid_show_value [of "snd s"] by (simp add: rsplit_once_Some_iff sample_line_def solid_iff)

text \<open>The constant part of the metrics: names, types, help texts and labels.\<close>

definition metric_texts :: "metric \<Rightarrow> string list" where
  "metric_texts m =
     (case m of (name, metric_type, help, samples) \<Rightarrow>
        [name, metric_type, help] @ map (\<lambda>s. series name (fst s)) samples)"

definition clean :: "string \<Rightarrow> bool" where
  "clean s \<longleftrightarrow> list_all (\<lambda>c. c \<noteq> newline) s"

lemma metrics_clean: "list_all (\<lambda>m. list_all clean (metric_texts m)) (all_metrics s)"
  by code_simp

lemma series_distinct: "distinct (concat (map (\<lambda>(n, _, _, ss). map (\<lambda>x. series n (fst x)) ss) (all_metrics s)))"
  by code_simp

lemma clean_iff: "clean s \<longleftrightarrow> newline \<notin> set s"
  by (auto simp: clean_def list_all_iff)

lemma newline_neq: "newline \<notin> set ''# HELP ''" "newline \<notin> set ''# TYPE ''" "newline \<noteq> CHR '' ''"
  by (simp_all add: newline_def)

lemma metric_lines_clean:
  assumes "list_all clean (metric_texts m)" and "l \<in> set (metric_lines m)"
  shows "newline \<notin> set l"
proof -
  obtain name ty hlp samples where m: "m = (name, ty, hlp, samples)" by (cases m)
  have texts: "newline \<notin> set name" "newline \<notin> set ty" "newline \<notin> set hlp"
    "\<forall>s \<in> set samples. newline \<notin> set (series name (fst s))"
    using assms(1) by (auto simp: m metric_texts_def clean_iff list_all_iff)
  have "newline \<notin> set (sample_line name s)" if "s \<in> set samples" for s
    using texts(4) that solid_show_value [of "snd s"] newline_neq(3)
    by (simp add: sample_line_def solid_iff)
  then show ?thesis using assms(2) texts
    by (auto simp: m metric_lines_def newline_def)
qed

lemma lines_of_render:
  "lines_of (render_prometheus now st cfg) = concat (map metric_lines (all_metrics (snapshot now st cfg)))"
  unfolding render_lines
  using metric_lines_clean metrics_clean [of "snapshot now st cfg"]
  by (intro lines_of_unlines) (auto simp: list_all_iff [of "\<lambda>m. list_all clean (metric_texts m)"])


text \<open>A scraper: the value after the last blank of the line with the given series.\<close>

definition scrape :: "string \<Rightarrow> string \<Rightarrow> string option" where
  "scrape body key = map_of (List.map_filter (rsplit_once CHR '' '') (lines_of body)) key"

lemma set_map_filter_iff: "y \<in> set (List.map_filter f xs) \<longleftrightarrow> (\<exists>x \<in> set xs. f x = Some y)"
  by (force simp: List.map_filter_def)

lemma map_of_only:
  assumes "(k, v) \<in> set al" "\<And>v'. (k, v') \<in> set al \<Longrightarrow> v' = v"
  shows "map_of al k = Some v"
proof -
  have "map_of al k \<noteq> None" using assms(1) by (auto simp: map_of_eq_None_iff intro: rev_image_eqI)
  then show ?thesis using assms(2) by (auto dest: map_of_SomeD)
qed

lemma names_start: "list_all (\<lambda>m. starts_with ''r'' (fst m)) (all_metrics s)"
  by code_simp

lemma series_starts:
  assumes "(name, ty, hlp, samples) \<in> set (all_metrics s)"
  shows "\<exists>rest. series name labels = CHR ''r'' # rest"
proof -
  have "starts_with ''r'' name" using names_start [of s] assms by (fastforce simp: list_all_iff)
  then show ?thesis by (auto simp: starts_with_def prefix_def series_def)
qed

lemma series_value:
  assumes "(n, ty, hlp, ss) \<in> set (all_metrics s)" "x \<in> set ss"
    and "(n', ty', hlp', ss') \<in> set (all_metrics s)" "x' \<in> set ss'" "series n (fst x) = series n' (fst x')"
  shows "snd x = snd x'"
proof -
  let ?al = "concat (map (\<lambda>(n, _, _, ss). map (\<lambda>x. (series n (fst x), snd x)) ss) (all_metrics s))"
  have "map fst ?al = concat (map (\<lambda>(n, _, _, ss). map (\<lambda>x. series n (fst x)) ss) (all_metrics s))"
    by (simp add: map_concat case_prod_unfold comp_def)
  then have d: "distinct (map fst ?al)" using series_distinct [of s] by simp
  have m: "(series n (fst x), snd x) \<in> set ?al"
    using assms(2) by (simp, intro bexI [OF _ assms(1)]) (simp add: rev_image_eqI)
  have m': "(series n' (fst x'), snd x') \<in> set ?al"
    using assms(4) by (simp, intro bexI [OF _ assms(3)]) (simp add: rev_image_eqI)
  show ?thesis by (rule eq_key_imp_eq_value [OF d m m' [folded assms(5)]])
qed

lemma page_line_of_series:
  assumes "(n, ty, hlp, ss) \<in> set (all_metrics s)"
    and "l \<in> set (concat (map metric_lines (all_metrics s)))"
    and "rsplit_once CHR '' '' l = Some (series n labels, v)"
  shows "\<exists>n' ty' hlp' ss' x'. (n', ty', hlp', ss') \<in> set (all_metrics s) \<and> x' \<in> set ss' \<and>
    series n labels = series n' (fst x') \<and> v = show_value (snd x')"
proof -
  obtain rest where "series n labels = CHR ''r'' # rest" using series_starts [OF assms(1)] by blast
  then have l: "l = CHR ''r'' # rest @ CHR '' '' # v"
    using assms(3) by (simp add: rsplit_once_Some_iff)
  obtain n' ty' hlp' ss' where m: "(n', ty', hlp', ss') \<in> set (all_metrics s)"
    "l \<in> set (metric_lines (n', ty', hlp', ss'))"
    using assms(2) by auto
  then obtain x' where "x' \<in> set ss'" "l = sample_line n' x'" using l by (auto simp: metric_lines_def)
  then have "series n labels = series n' (fst x')" "v = show_value (snd x')"
    using assms(3) sample_line_split [of n' x'] by simp_all
  then show ?thesis using m(1) \<open>x' \<in> set ss'\<close> by blast
qed

lemma scrape_render:
  assumes "(n, ty, hlp, ss) \<in> set (all_metrics (snapshot now st cfg))" "x \<in> set ss"
  shows "scrape (render_prometheus now st cfg) (series n (fst x)) = Some (show_value (snd x))"
  unfolding scrape_def
proof (rule map_of_only)
  let ?al = "List.map_filter (rsplit_once CHR '' '') (lines_of (render_prometheus now st cfg))"
  have "sample_line n x \<in> set (lines_of (render_prometheus now st cfg))"
    unfolding lines_of_render using assms by (auto simp: metric_lines_def intro!: bexI [of _ "(n, ty, hlp, ss)"])
  then show "(series n (fst x), show_value (snd x)) \<in> set ?al"
    using sample_line_split by (force simp: set_map_filter_iff)
  show "v = show_value (snd x)" if v: "(series n (fst x), v) \<in> set ?al" for v
  proof -
    obtain l where "l \<in> set (concat (map metric_lines (all_metrics (snapshot now st cfg))))"
      "rsplit_once CHR '' '' l = Some (series n (fst x), v)"
      using v unfolding set_map_filter_iff lines_of_render by blast
    then show ?thesis using page_line_of_series [OF assms(1)] series_value [OF assms] by metis
  qed
qed

text \<open>The series a monitor of the limits reads.\<close>

lemma scrape_connections:
  fixes now st cfg
  defines "body \<equiv> render_prometheus now st cfg"
  shows "scrape body ''reprox_connections_limit'' = Some (show_nat (unat (max_connections cfg)))"
    and "scrape body ''reprox_connections_available'' =
      Some (show_nat (unat (u64_saturating_sub (max_connections cfg) (connections st))))"
    and "scrape body (series ''reprox_connections_active'' [(''route'', ''proxied'')]) =
      Some (show_int (sint (active_proxied st)))"
    and "scrape body (series ''reprox_connections_active'' [(''route'', ''fallback'')]) =
      Some (show_int (sint (active_fallback st)))"
    and "scrape body ''reprox_config_secret_domains'' =
      Some (show_nat (unat (of_nat (length (routes cfg)) :: u64)))"
proof -
  let ?ms = "all_metrics (snapshot now st cfg)"
  have row: "scrape body (series n (fst x)) = Some (show_value (snd x))"
    if "\<exists>ty hlp ss. (n, ty, hlp, ss) \<in> set ?ms \<and> x \<in> set ss" for n x
    using that scrape_render unfolding body_def by blast
  note simps = all_metrics_def connection_metrics_def proxy_metrics_def http_metrics_def snapshot_def
    snapshot_connections_def snapshot_config_def show_value_def
  have bare: "series n [] = n" for n by (simp add: series_def)
  show "scrape body ''reprox_connections_limit'' = Some (show_nat (unat (max_connections cfg)))"
    using row [of "''reprox_connections_limit''" "([], Val_U (max_connections cfg))"] by (simp add: simps bare)
  show "scrape body ''reprox_connections_available'' =
      Some (show_nat (unat (u64_saturating_sub (max_connections cfg) (connections st))))"
    using row [of "''reprox_connections_available''"
        "([], Val_U (u64_saturating_sub (max_connections cfg) (connections st)))"] by (simp add: simps bare)
  show "scrape body (series ''reprox_connections_active'' [(''route'', ''proxied'')]) =
      Some (show_int (sint (active_proxied st)))"
    using row [of "''reprox_connections_active''" "([(''route'', ''proxied'')], Val_I (active_proxied st))"]
    by (simp add: simps)
  show "scrape body (series ''reprox_connections_active'' [(''route'', ''fallback'')]) =
      Some (show_int (sint (active_fallback st)))"
    using row [of "''reprox_connections_active''" "([(''route'', ''fallback'')], Val_I (active_fallback st))"]
    by (simp add: simps)
  show "scrape body ''reprox_config_secret_domains'' =
      Some (show_nat (unat (of_nat (length (routes cfg)) :: u64)))"
    using row [of "''reprox_config_secret_domains''" "([], Val_U (of_nat (length (routes cfg))))"]
    by (simp add: simps bare)
qed


section \<open>Properties\<close>

text \<open>
  C39: The rendered page consists of exactly the lines of its metrics; a scraper finds every series on
  it, with the value it was rendered from; the value of a counter parses back to the 64-bit number, and
  no series appears twice.
\<close>

theorem page_reads_back:
  "let body = render_prometheus now st cfg; ms = all_metrics (snapshot now st cfg) in
    lines_of body = concat (map metric_lines ms) \<and>
    (\<forall>(name, ty, help, samples) \<in> set ms. \<forall>(labels, v) \<in> set samples.
       scrape body (series name labels) = Some (show_value v) \<and>
       (case v of Val_U n \<Rightarrow> parse_uint 64 (show_value v) = Some (unat n) | _ \<Rightarrow> True)) \<and>
    distinct (concat (map (\<lambda>(name, _, _, samples). map (\<lambda>x. series name (fst x)) samples) ms))"
proof -
  have "case v of Val_U n \<Rightarrow> parse_uint 64 (show_value v) = Some (unat n) | _ \<Rightarrow> True" for v
    using unat_u64_less by (simp add: show_value_def parse_uint_show_nat split: metric_value.split)
  then show ?thesis
    unfolding Let_def using series_distinct scrape_render by (fastforce simp: lines_of_render)
qed

lemma page_reads_back_witness:
  "scrape (render_prometheus 0 (new_stats 0) sample_config) ''reprox_connections_limit'' = Some ''2''"
proof -
  let ?h = "''Configured cap on connections handled at once, across both routes '' @ ''(max_connections).''"
  have in_ms: "(''reprox_connections_limit'', ''gauge'', ?h, [([], Val_U 2)])
      \<in> set (all_metrics (snapshot 0 (new_stats 0) sample_config))"
    by (simp add: all_metrics_def connection_metrics_def snapshot_def snapshot_connections_def sample_config_def)
  have "scrape (render_prometheus 0 (new_stats 0) sample_config) (series name labels) = Some (show_value v)"
    if "(name, ty, hlp, samples) \<in> set (all_metrics (snapshot 0 (new_stats 0) sample_config))"
      "(labels, v) \<in> set samples" for name ty hlp samples labels v
    using page_reads_back [of 0 "new_stats 0" sample_config] that unfolding Let_def by fast
  from this [OF in_ms, of "[]" "Val_U 2"]
  show ?thesis by (simp add: series_def show_value_def std_simps)
qed

lemma metrics_loop_run:
  "metrics_loop js cfg es =
    (map (\<lambda>e. case e of Metrics_connection reqs \<Rightarrow> serve_requests js cfg reqs | Metrics_accept_error \<Rightarrow> [])
       (takeWhile (\<lambda>e. e \<noteq> Metrics_accept_error) es),
     if Metrics_accept_error \<in> set es then Some Accept_failed else None)"
  by (induction js cfg es rule: metrics_loop.induct) simp_all

text \<open>
  C40: On an address that is not a loopback address nothing is bound and no request is answered.
  Otherwise every connection up to the first failing \<open>accept\<close> is served, that failure ends the
  endpoint, and every request is answered once: with 405 when it is not a GET, with 200 on the three
  paths of the endpoint, and with 404 otherwise.
\<close>

theorem metrics_loopback_only:
  "let (served, err) = metrics_serve js bind addr cfg es in
    (\<not> is_loopback (sa_ip addr) \<longrightarrow> served = [] \<and> err = Some (Not_loopback addr)) \<and>
    (is_loopback (sa_ip addr) \<and> bind addr \<longrightarrow>
       served = map (\<lambda>e. case e of
                           Metrics_connection reqs \<Rightarrow> map (\<lambda>(now, st, req). handle_request js now req st cfg) reqs
                         | Metrics_accept_error \<Rightarrow> [])
                  (takeWhile (\<lambda>e. e \<noteq> Metrics_accept_error) es) \<and>
       (err = Some Accept_failed \<longleftrightarrow> Metrics_accept_error \<in> set es)) \<and>
    status (handle_request js now req st cfg) =
      (if req_method req \<noteq> ''GET'' then 405
       else if req_path req \<in> {''/metrics'', ''/metrics.json'', ''/healthz''} then 200 else 404)"
proof -
  have "status (handle_request js now req st cfg) =
      (if req_method req \<noteq> ''GET'' then 405
       else if req_path req \<in> {''/metrics'', ''/metrics.json'', ''/healthz''} then 200 else 404)"
    by (simp add: handle_request_def plain_response_def Let_def)
  then show ?thesis by (auto simp: metrics_serve_def metrics_loop_run serve_requests_def split: metrics_event.split)
qed

lemma metrics_loopback_only_witness:
  "fst (metrics_serve (\<lambda>_. None) (\<lambda>_. True) (SocketAddr (V4 0 0 0 0) 9100 0) sample_config
     [Metrics_connection [(0, new_stats 0, \<lparr>req_method = ''GET'', req_path = ''/healthz'', req_if_none_match = None\<rparr>)]]) = []"
  using metrics_loopback_only [of "\<lambda>_. None" "\<lambda>_. True" "SocketAddr (V4 0 0 0 0) 9100 0" sample_config
     "[Metrics_connection [(0, new_stats 0, \<lparr>req_method = ''GET'', req_path = ''/healthz'', req_if_none_match = None\<rparr>)]]"]
  by (simp add: case_prod_unfold Let_def)

end
