(* ===== verification/Rate_Reload.thy ===== *)
theory Rate_Reload
  imports Rate_Limiter
begin

text \<open>
  \<open>src/rate_limiter.rs\<close>, sweeps and live changes of the limits together. Under fixed limits a sweep is
  invisible (\<open>decisions_without_sweeps\<close>). Across a change it shows: an address whose bucket was full
  for the old burst and has been swept starts with the whole new burst, while one that was kept has
  only what it has earned. The history is evaluated step by step, since the arithmetic is binary64.
\<close>

section \<open>One address, one token per second\<close>

definition one_at :: "u64 \<Rightarrow> rat \<Rightarrow> instant \<Rightarrow> rate_limiter" where
  "one_at n k t =
     \<lparr>buckets = [sample_ip \<mapsto> \<lparr>tokens = Fin k, last_refill = t\<rparr>], capacity = n, refill_per_sec = Fin 1\<rparr>"

lemma f64_of_rat_2: "f64_of_rat 2 = Fin 2"
  using f64_of_nat_exact [of 2] by (simp add: f64_of_nat_def)

lemma secs_0_1: "as_secs_f64 1000000000 = Fin 1" "as_secs_f64 0 = Fin 0"
  using f64_of_nat_exact [of 1] by (simp_all add: as_secs_f64_def NANOS_PER_SEC_def f64_of_rat_1 f64_of_nat_def)

lemma one_at_refilled:
  "refilled (one_at 1 0 0) 1000000000 \<lparr>tokens = Fin 0, last_refill = 0\<rparr> = Fin 1"
  "refilled (one_at 2 0 0) 1000000000 \<lparr>tokens = Fin 0, last_refill = 0\<rparr> = Fin 1"
  "refilled (one_at 2 0 1000000000) 1000000000 \<lparr>tokens = Fin 0, last_refill = 1000000000\<rparr> = Fin 0"
  "refilled (one_at 2 1 1000000000) 1000000000 \<lparr>tokens = Fin 1, last_refill = 1000000000\<rparr> = Fin 1"
  by (simp_all add: one_at_def refilled_def cap_f64_def f64_of_nat_def f64_of_rat_1 f64_of_rat_2 secs_0_1
      saturating_duration_since_def f64_min_def Let_def)

lemma one_at_bucket: "bucket_or_new (one_at n k t) now sample_ip = \<lparr>tokens = Fin k, last_refill = t\<rparr>"
  by (simp add: one_at_def bucket_or_new_def)

lemma one_at_allow:
  "refilled (one_at n k t) now \<lparr>tokens = Fin k, last_refill = t\<rparr> = Fin j \<Longrightarrow>
   allow now sample_ip (one_at n k t) =
     (if 1 \<le> j then (True, (one_at n k t)\<lparr>buckets := [sample_ip \<mapsto> \<lparr>tokens = f64_sub (Fin j) (Fin 1), last_refill = now\<rparr>]\<rparr>)
      else (False, one_at n j now))"
  by (simp add: allow_def one_at_bucket Let_def sample_limiter_ok(3)) (simp add: one_at_def)

lemma f64_sub_11: "f64_sub (Fin 1) (Fin 1) = Fin 0" "f64_sub (Fin 2) (Fin 1) = Fin 1"
  using f64_sub_1_nat [of 1] f64_sub_1_nat [of 2] by simp_all

lemma one_at_fresh:
  "allow 0 sample_ip (rate_limiter_new (Fin 1) 1) = (True, one_at 1 0 0)"
  "allow 1000000000 sample_ip (rate_limiter_new (Fin 1) 2) = (True, one_at 2 1 1000000000)"
  by (simp_all add: allow_def bucket_or_new_def refilled_def rate_limiter_new_def cap_f64_def f64_of_nat_def
      f64_of_rat_1 f64_of_rat_2 secs_0_1 f64_min_def Let_def sample_limiter_ok(3) one_at_def f64_sub_11)

lemma one_at_sweep: "sweep 1000000000 (one_at 1 0 0) = rate_limiter_new (Fin 1) 1"
proof -
  have "cap_f64 (one_at 1 0 0) = Fin 1" by (simp add: one_at_def cap_f64_def f64_of_nat_def f64_of_rat_1)
  then show ?thesis
    using one_at_refilled(1)
    by (auto simp: sweep_def map_retain_def rate_limiter_new_def one_at_def fun_eq_iff)
qed

lemma one_at_store:
  "store_capacity 2 (one_at 1 0 0) = one_at 2 0 0"
  "store_capacity 2 (rate_limiter_new (Fin 1) 1) = rate_limiter_new (Fin 1) 2"
  by (simp_all add: store_capacity_def one_at_def rate_limiter_new_def)

section \<open>A sweep that shows\<close>

text \<open>A connection at 0 s, a burst raised from 1 to 2, two connections at 1 s; and the same with a sweep
  before the burst is raised.\<close>

lemma sweep_seen_after_raise:
  "let ops = [Op_store_capacity 2, Op_allow 1000000000 sample_ip, Op_allow 1000000000 sample_ip];
       answers = (\<lambda>es. map snd (rate_run es (rate_limiter_new (Fin 1) 1)))
   in answers (Op_allow 0 sample_ip # ops) = [Some True, None, Some True, Some False] \<and>
      answers (Op_allow 0 sample_ip # Op_sweep 1000000000 # ops) = [Some True, None, None, Some True, Some True]"
proof -
  have "allow 1000000000 sample_ip (one_at 2 0 0) = (True, one_at 2 0 1000000000)"
    using one_at_allow [OF one_at_refilled(2)] f64_sub_11 by (simp add: one_at_def)
  moreover have "\<not> fst (allow 1000000000 sample_ip (one_at 2 0 1000000000))"
    using one_at_allow [OF one_at_refilled(3)] by simp
  moreover have "fst (allow 1000000000 sample_ip (one_at 2 1 1000000000))"
    using one_at_allow [OF one_at_refilled(4)] by simp
  ultimately show ?thesis by (simp add: one_at_fresh one_at_sweep one_at_store map_prod_def case_prod_unfold)
qed

end
