(* ===== verification/Signals.thy ===== *)
theory Signals
  imports Reprox_Prelude
begin

text \<open>
  \<open>shutdown_signal\<close> of \<open>src/main.rs\<close>: what makes the process shut down. A future that may never
  resolve is a value of type \<open>wait\<close>; what tokio's two signal interfaces do is the argument.
  \<open>select!\<close> takes any branch that is ready, so the result is a set of branches, empty as long as the
  process goes on; \<open>Ev_shutdown\<close> of \<open>Main_Loop\<close> is the moment it is not.
\<close>

datatype 'a wait = Never | Resolves 'a

datatype shutdown_reason = Received_SIGINT | Received_SIGTERM

datatype signal_warning = SIGINT_not_installed | SIGTERM_not_installed

text \<open>The block \<open>ctrl_c\<close>: an error is logged, and the block ends all the same.\<close>

definition ctrl_c :: "('e + unit) wait \<Rightarrow> signal_warning list wait" where
  "ctrl_c sig =
     (case sig of
        Never \<Rightarrow> Never
      | Resolves (Inr _) \<Rightarrow> Resolves []
      | Resolves (Inl e) \<Rightarrow> Resolves [SIGINT_not_installed])"

text \<open>The block \<open>terminate\<close>: the handler that is installed, or the error, and what \<open>recv\<close> does; on other
  systems than Unix it is pending for ever.\<close>

definition terminate :: "bool \<Rightarrow> 'e + unit option wait \<Rightarrow> signal_warning list wait" where
  "terminate unix sig =
     (if \<not> unix then Never
      else case sig of
             Inr Never \<Rightarrow> Never
           | Inr (Resolves _) \<Rightarrow> Resolves []
           | Inl e \<Rightarrow> Resolves [SIGTERM_not_installed])"

definition is_ready :: "'a wait \<Rightarrow> bool" where
  "is_ready w \<longleftrightarrow> w \<noteq> Never"

definition shutdown_signal ::
  "bool \<Rightarrow> ('e + unit) wait \<Rightarrow> 'e + unit option wait \<Rightarrow> shutdown_reason set" where
  "shutdown_signal unix sigint sigterm =
     (if is_ready (ctrl_c sigint) then {Received_SIGINT} else {})
     \<union> (if is_ready (terminate unix sigterm) then {Received_SIGTERM} else {})"

lemma ready_ctrl_c: "is_ready (ctrl_c sigint) \<longleftrightarrow> sigint \<noteq> Never"
  by (auto simp: is_ready_def ctrl_c_def split: wait.split sum.split)

lemma ready_terminate: "is_ready (terminate unix sigterm) \<longleftrightarrow> unix \<and> sigterm \<noteq> Inr Never"
  by (auto simp: is_ready_def terminate_def split: wait.split sum.split)

text \<open>With both handlers installed the process shuts down exactly when a signal arrives, for the reason it
  logs.\<close>

lemma shutdown_on_signal:
  "shutdown_signal True sigint (Inr sigterm) =
    {r. r = Received_SIGINT \<and> sigint \<noteq> Never \<or> r = Received_SIGTERM \<and> sigterm \<noteq> Never}"
  by (auto simp: shutdown_signal_def ready_ctrl_c ready_terminate)

text \<open>When a handler cannot be installed, the process shuts down at once, without any signal, and logs
  that it has received the one it cannot receive.\<close>

lemma shutdown_without_signal:
  "Received_SIGTERM \<in> shutdown_signal True sigint (Inl e)" "Received_SIGINT \<in> shutdown_signal unix (Resolves (Inl e)) sigterm"
  "shutdown_signal True Never (Inl e) = {Received_SIGTERM}"
  by (simp_all add: shutdown_signal_def ready_ctrl_c ready_terminate)

end
