(* ===== verification/Unit_Tests.thy ===== *)
theory Unit_Tests
  imports Config Ip_Limiter Rate_Bound Proxy
begin

text \<open>
  The repository's own unit tests (the \<open>#[cfg(test)]\<close> modules of \<open>config.rs\<close>, \<open>ip_limiter.rs\<close>,
  \<open>rate_limiter.rs\<close> and \<open>route/proxy.rs\<close>), each translated into the conjunction of its assertions over
  the model. They check the model against what the authors expect of the code: every one of them
  holds. Where a test reads the clock, its readings are an argument; where it opens a loopback
  socket, the answer its comments describe is the connector.
\<close>

section \<open>\<open>config.rs\<close>\<close>

definition accepts_plain_ip_and_port :: bool where
  "accepts_plain_ip_and_port \<longleftrightarrow>
     is_ok (validate_upstream ''127.0.0.1:8080'') \<and> is_ok (validate_upstream ''0.0.0.0:443'')"

definition accepts_bracketed_ipv6 :: bool where
  "accepts_bracketed_ipv6 \<longleftrightarrow> is_ok (validate_upstream ''[::1]:8080'')"

definition accepts_plausible_hostname :: bool where
  "accepts_plausible_hostname \<longleftrightarrow>
     is_ok (validate_upstream ''backend.internal:8080'') \<and>
     is_ok (validate_upstream ''service-2_a.local:4443'')"

definition rejects_missing_port :: bool where
  "rejects_missing_port \<longleftrightarrow>
     \<not> is_ok (validate_upstream ''127.0.0.1'') \<and> \<not> is_ok (validate_upstream ''backend.internal'')"

definition rejects_url_scheme :: bool where
  "rejects_url_scheme \<longleftrightarrow> \<not> is_ok (validate_upstream ''https://127.0.0.1:8080'')"

definition rejects_trailing_path :: bool where
  "rejects_trailing_path \<longleftrightarrow> \<not> is_ok (validate_upstream ''127.0.0.1:8080/'')"

definition rejects_zero_port_and_garbage_port :: bool where
  "rejects_zero_port_and_garbage_port \<longleftrightarrow>
     \<not> is_ok (validate_upstream ''127.0.0.1:0'') \<and> \<not> is_ok (validate_upstream ''127.0.0.1:notaport'')"

definition rejects_empty_host :: bool where
  "rejects_empty_host \<longleftrightarrow> \<not> is_ok (validate_upstream '':8080'')"

definition rejects_whitespace :: bool where
  "rejects_whitespace \<longleftrightarrow> \<not> is_ok (validate_upstream ''127.0.0.1 :8080'')"

lemma config_tests_pass:
  "accepts_plain_ip_and_port" "accepts_bracketed_ipv6" "accepts_plausible_hostname" "rejects_missing_port"
  "rejects_url_scheme" "rejects_trailing_path" "rejects_zero_port_and_garbage_port" "rejects_empty_host"
  "rejects_whitespace"
  subgoal by (simp add: accepts_plain_ip_and_port_def validate_upstream_def host_char_def std_simps)
  subgoal by (simp add: accepts_bracketed_ipv6_def validate_upstream_def host_char_def std_simps)
  subgoal by (simp add: accepts_plausible_hostname_def validate_upstream_def host_char_def std_simps)
  subgoal by (simp add: rejects_missing_port_def validate_upstream_def host_char_def std_simps)
  subgoal by (simp add: rejects_url_scheme_def validate_upstream_def host_char_def std_simps)
  subgoal by (simp add: rejects_trailing_path_def validate_upstream_def host_char_def std_simps)
  subgoal by (simp add: rejects_zero_port_and_garbage_port_def validate_upstream_def host_char_def std_simps)
  subgoal by (simp add: rejects_empty_host_def validate_upstream_def host_char_def std_simps)
  subgoal by (simp add: rejects_whitespace_def validate_upstream_def host_char_def std_simps)
  done


section \<open>\<open>ip_limiter.rs\<close>\<close>

definition test_ip :: "u8 \<Rightarrow> ip_addr" where
  "test_ip n = V4 203 0 113 n"

text \<open>\<open>assert!(limiter.try_acquire_slot(..).is_some())\<close>: the slot is dropped at the end of the statement.\<close>

definition acquires :: "ip_addr \<Rightarrow> ip_limiter \<Rightarrow> bool \<times> ip_limiter" where
  "acquires a l =
     (case try_acquire_slot a l of
        (Some s, l') \<Rightarrow> (True, drop_ip_slot s l')
      | (None, l') \<Rightarrow> (False, l'))"

text \<open>The assertion of a loop's body, in every one of \<open>n\<close> rounds.\<close>

fun asserts :: "nat \<Rightarrow> ('s \<Rightarrow> bool \<times> 's) \<Rightarrow> 's \<Rightarrow> bool \<times> 's" where
  "asserts 0 f s = (True, s)"
| "asserts (Suc n) f s =
     (let (ok, s1) = f s; (oks, s2) = asserts n f s1 in (ok \<and> oks, s2))"

lemma asserts_fix: "f s = (True, s) \<Longrightarrow> asserts n f s = (True, s)"
  by (induction n) simp_all

definition allows_up_to_the_limit_then_rejects :: bool where
  "allows_up_to_the_limit_then_rejects \<longleftrightarrow>
     (let limiter = ip_limiter_new 2;
          (a, l1) = try_acquire_slot (test_ip 1) limiter;
          (b, l2) = try_acquire_slot (test_ip 1) l1;
          (c, l3) = try_acquire_slot (test_ip 1) l2
      in a \<noteq> None \<and> b \<noteq> None \<and> c = None)"

definition different_ips_have_independent_counters :: bool where
  "different_ips_have_independent_counters \<longleftrightarrow>
     (let limiter = ip_limiter_new 1;
          (a, l1) = acquires (test_ip 1) limiter;
          (b, l2) = acquires (test_ip 2) l1
      in a \<and> b)"

definition dropping_a_slot_frees_it_up_again :: bool where
  "dropping_a_slot_frees_it_up_again \<longleftrightarrow>
     (let limiter = ip_limiter_new 1;
          (a, l1) = try_acquire_slot (test_ip 1) limiter;
          (b, l2) = acquires (test_ip 1) l1;
          l3 = (case a of Some s \<Rightarrow> drop_ip_slot s l2 | None \<Rightarrow> l2);
          (c, l4) = acquires (test_ip 1) l3
      in \<not> b \<and> c)"

definition idle_ips_are_swept_from_the_map :: bool where
  "idle_ips_are_swept_from_the_map \<longleftrightarrow>
     (let limiter = ip_limiter_new 5;
          (a, l1) = try_acquire_slot (test_ip 1) limiter;
          l2 = (case a of Some s \<Rightarrow> drop_ip_slot s l1 | None \<Rightarrow> l1)
      in ips_count l1 = 1 \<and> ips_count l2 = 0)"

definition zero_means_disabled :: bool where
  "zero_means_disabled \<longleftrightarrow>
     (let limiter = ip_limiter_new 0;
          (ok, l1) = asserts 1000 (acquires (test_ip 1)) limiter
      in ok \<and> ips_count l1 = 0)"

definition set_max_per_ip_applies_to_subsequent_acquires :: bool where
  "set_max_per_ip_applies_to_subsequent_acquires \<longleftrightarrow>
     (let limiter = ip_limiter_new 1;
          (a, l1) = try_acquire_slot (test_ip 1) limiter;
          (b, l2) = acquires (test_ip 1) l1;
          l3 = ip_set_limit 2 l2;
          (c, l4) = acquires (test_ip 1) l3
      in a \<noteq> None \<and> \<not> b \<and> c)"

lemmas ip_defs = Let_def word_le_nat_alt test_ip_def acquires_def ip_limiter_new_def try_acquire_slot_def drop_ip_slot_def
  ip_set_limit_def ips_count_def

lemma acquires_disabled: "acquires (test_ip 1) (ip_limiter_new 0) = (True, ip_limiter_new 0)"
  by (simp add: ip_defs)

lemma ip_limiter_tests_pass:
  "allows_up_to_the_limit_then_rejects" "different_ips_have_independent_counters"
  "dropping_a_slot_frees_it_up_again" "idle_ips_are_swept_from_the_map" "zero_means_disabled"
  "set_max_per_ip_applies_to_subsequent_acquires"
  subgoal by (simp add: allows_up_to_the_limit_then_rejects_def ip_defs)
  subgoal by (simp add: different_ips_have_independent_counters_def ip_defs)
  subgoal by (simp add: dropping_a_slot_frees_it_up_again_def ip_defs)
  subgoal by (simp add: idle_ips_are_swept_from_the_map_def ip_defs)
  subgoal by (simp add: zero_means_disabled_def asserts_fix [of "acquires (test_ip 1)" "ip_limiter_new 0", OF acquires_disabled]) (simp add: ip_defs)
  subgoal by (simp add: set_max_per_ip_applies_to_subsequent_acquires_def ip_defs)
  done


section \<open>\<open>rate_limiter.rs\<close>\<close>

text \<open>
  \<open>now\<close> is the reading of the clock before a test sleeps, \<open>later\<close> the one after it. Between two calls
  the tests take the clock to stand still: a thread that loses the processor for a millisecond
  between the first two calls of \<open>refills_over_time\<close> would see it fail.
\<close>

definition allows_burst_then_throttles :: "instant \<Rightarrow> bool" where
  "allows_burst_then_throttles now \<longleftrightarrow>
     (let rl = rate_limiter_new (Fin 1) 2;
          (a, r1) = allow now (test_ip 1) rl;
          (b, r2) = allow now (test_ip 1) r1;
          (c, r3) = allow now (test_ip 1) r2
      in a \<and> b \<and> \<not> c)"

definition refills_over_time :: "instant \<Rightarrow> instant \<Rightarrow> bool" where
  "refills_over_time now later \<longleftrightarrow>
     (let rl = rate_limiter_new (Fin 1000) 1;
          (a, r1) = allow now (test_ip 1) rl;
          (b, r2) = allow now (test_ip 1) r1;
          (c, r3) = allow later (test_ip 1) r2
      in a \<and> \<not> b \<and> c)"

definition different_ips_independent :: "instant \<Rightarrow> bool" where
  "different_ips_independent now \<longleftrightarrow>
     (let rl = rate_limiter_new (Fin 1) 1;
          (a, r1) = allow now (test_ip 1) rl;
          (b, r2) = allow now (test_ip 2) r1
      in a \<and> b)"

definition zero_rate_disables_and_tracks_nothing :: "instant \<Rightarrow> bool" where
  "zero_rate_disables_and_tracks_nothing now \<longleftrightarrow>
     (let rl = rate_limiter_new (Fin 0) 1;
          (ok, r1) = asserts 1000 (allow now (test_ip 1)) rl
      in ok \<and> rate_ips_count r1 = 0)"

definition sweep_removes_fully_recovered_buckets :: "instant \<Rightarrow> instant \<Rightarrow> bool" where
  "sweep_removes_fully_recovered_buckets now later \<longleftrightarrow>
     (let rl = rate_limiter_new (Fin 1000) 1;
          (a, r1) = allow now (test_ip 1) rl;
          r2 = sweep later r1
      in a \<and> rate_ips_count r2 = 0)"

definition sweep_keeps_buckets_still_recovering :: "instant \<Rightarrow> bool" where
  "sweep_keeps_buckets_still_recovering now \<longleftrightarrow>
     (let rl = rate_limiter_new (Fin 1) 5;
          (five, r1) = asserts 5 (allow now (test_ip 1)) rl;
          (c, r2) = allow now (test_ip 1) r1;
          r3 = sweep now r2
      in five \<and> \<not> c \<and> rate_ips_count r3 = 1)"

text \<open>At one instant the one bucket of a test holds a whole number of tokens.\<close>

definition one_bucket :: "rat \<Rightarrow> u64 \<Rightarrow> nat \<Rightarrow> instant \<Rightarrow> rate_limiter" where
  "one_bucket r burst k now =
     \<lparr>buckets = [test_ip 1 \<mapsto> \<lparr>tokens = Fin (of_nat k), last_refill = now\<rparr>],
      capacity = burst, refill_per_sec = Fin r\<rparr>"

lemma test_ip_limited [simp]: "\<not> is_loopback (test_ip n)"
  by (simp add: test_ip_def)

lemma one_bucket_simps [simp]:
  "capacity (one_bucket r burst k now) = burst" "refill_per_sec (one_bucket r burst k now) = Fin r"
  "buckets (one_bucket r burst k now) = [test_ip 1 \<mapsto> \<lparr>tokens = Fin (of_nat k), last_refill = now\<rparr>]"
  "rate_on (one_bucket r burst k now) \<longleftrightarrow> 0 < r" "rate_inv (one_bucket r burst k now)"
  by (simp_all add: one_bucket_def rate_on_def rate_inv_def)

lemma one_bucket_upd [simp]:
  "(one_bucket r burst k now)\<lparr>buckets := [test_ip 1 \<mapsto> \<lparr>tokens = Fin (of_nat j), last_refill = now\<rparr>]\<rparr> =
    one_bucket r burst j now"
  by (simp add: one_bucket_def)

lemma allow_again:
  assumes "0 < r" "k \<le> unat burst" "unat burst \<le> 2 ^ 53"
  shows "allow now (test_ip 1) (one_bucket r burst k now) = (0 < k, one_bucket r burst (k - 1) now)"
proof -
  let ?rl = "one_bucket r burst k now"
  have "refilled ?rl now \<lparr>tokens = Fin (of_nat k), last_refill = now\<rparr> = Fin (of_nat k)"
    by (rule refilled_same_instant) (use assms in simp_all)
  then have t: "refilled ?rl now (bucket_or_new ?rl now (test_ip 1)) = Fin (of_nat k)"
    by (simp add: bucket_or_new_def)
  show ?thesis
  proof (cases k)
    case 0
    then show ?thesis using t assms(1) one_bucket_upd [where j = 0 and k = 0] by (simp add: allow_def Let_def)
  next
    case (Suc j)
    then have "f64_sub (Fin (of_nat k)) (Fin 1) = Fin (of_nat j)" using f64_sub_1_nat [of k] assms(2,3) by simp
    then show ?thesis using Suc t assms(1) by (simp add: allow_def Let_def del: of_nat_Suc)
  qed
qed

lemma allow_new:
  assumes "0 < r" "0 < unat burst" "unat burst \<le> 2 ^ 53"
  shows "allow now (test_ip 1) (rate_limiter_new (Fin r) burst) = (True, one_bucket r burst (unat burst - 1) now)"
proof -
  have "allow now (test_ip 1) (rate_limiter_new (Fin r) burst) = allow now (test_ip 1) (one_bucket r burst (unat burst) now)"
    using assms(1) f64_of_nat_exact [OF assms(3)]
    by (simp add: allow_def bucket_or_new_def rate_limiter_new_def one_bucket_def refilled_def cap_f64_def Let_def)
  then show ?thesis using allow_again [OF assms(1) order_refl assms(3)] assms(2) by simp
qed

text \<open>Ten milliseconds at a thousand tokens per second fill a bucket of one.\<close>

lemma ten_ms_fill:
  assumes "now + dur_from_millis 10 \<le> later" "later - now \<le> DURATION_MAX"
  shows "f64_le (Fin 1) (refilled (one_bucket 1000 1 0 now) later \<lparr>tokens = Fin 0, last_refill = now\<rparr>)"
proof (rule refilled_after_wait)
  have "(10000000 :: rat) \<le> of_nat (later - now)" using assms(1) by (simp add: std_simps of_nat_diff)
  then have "1 + 1 / 2 ^ 51 \<le> 1000 * secs (later - now)" by (simp add: secs_def NANOS_PER_SEC_def)
  from token_earned [OF _ assms(2) this]
  show "f64_le (Fin 1) (f64_mul (as_secs_f64 (saturating_duration_since later
      (last_refill \<lparr>tokens = Fin 0, last_refill = now\<rparr>))) (refill_per_sec (one_bucket 1000 1 0 now)))"
    by (simp add: saturating_duration_since_def)
qed (simp_all add: f64_nonneg_def)

lemma sweep_full:
  assumes "now + dur_from_millis 10 \<le> later" "later - now \<le> DURATION_MAX"
  shows "buckets (sweep later (one_bucket 1000 1 0 now)) = Map.empty"
proof -
  let ?rl = "one_bucket 1000 1 0 now" and ?b = "\<lparr>tokens = Fin 0, last_refill = now\<rparr>"
  have cap: "cap_f64 ?rl = Fin 1" using f64_of_nat_exact [of 1] by (simp add: cap_f64_def)
  have "f64_le (refilled ?rl later ?b) (cap_f64 ?rl)" by (rule refilled_le_cap) (simp_all add: f64_nonneg_def)
  then have "refilled ?rl later ?b = Fin 1" using ten_ms_fill [OF assms] f64_le_antisym unfolding cap by blast
  then show ?thesis by (auto simp: sweep_def map_retain_def cap split: option.splits)
qed

lemma sweep_empty: "buckets (sweep now (one_bucket 1 5 0 now)) = buckets (one_bucket 1 5 0 now)"
proof -
  have "refilled (one_bucket 1 5 0 now) now \<lparr>tokens = Fin (of_nat 0), last_refill = now\<rparr> = Fin (of_nat 0)"
    by (rule refilled_same_instant) simp_all
  then show ?thesis using f64_of_nat_exact [of 5] by (simp add: sweep_def map_retain_def cap_f64_def fun_eq_iff)
qed

lemma rate_limiter_tests_pass:
  assumes "now + dur_from_millis 10 \<le> later" "later - now \<le> DURATION_MAX"
  shows "allows_burst_then_throttles now" "refills_over_time now later" "different_ips_independent now"
    "zero_rate_disables_and_tracks_nothing now" "sweep_removes_fully_recovered_buckets now later"
    "sweep_keeps_buckets_still_recovering now"
proof -
  note new = allow_new [of 1 2 now] allow_new [of 1000 1 now] allow_new [of 1 5 now] allow_new [of 1 1 now]
  note again = allow_again [of 1 1 2 now] allow_again [of 1 0 2 now] allow_again [of 1000 0 1 now]
  show "allows_burst_then_throttles now"
    using new again by (simp add: allows_burst_then_throttles_def)
  have "fst (allow later (test_ip 1) (one_bucket 1000 1 0 now))"
    using ten_ms_fill [OF assms] by (simp add: allow_def bucket_or_new_def Let_def)
  then show "refills_over_time now later"
    using new again by (simp add: refills_over_time_def case_prod_unfold)
  have "fst (allow now (test_ip 2) (one_bucket 1 1 0 now))"
    by (rule allow_fresh) (simp_all add: test_ip_def)
  then show "different_ips_independent now"
    using new by (simp add: different_ips_independent_def case_prod_unfold)
  have "allow now (test_ip 1) (rate_limiter_new (Fin 0) 1) = (True, rate_limiter_new (Fin 0) 1)"
    by (rule allow_disabled) (simp add: rate_limiter_new_def)
  from asserts_fix [of "allow now (test_ip 1)", OF this] show "zero_rate_disables_and_tracks_nothing now"
    by (simp add: zero_rate_disables_and_tracks_nothing_def rate_ips_count_def rate_limiter_new_def)
  show "sweep_removes_fully_recovered_buckets now later"
    using new sweep_full [OF assms]
    by (simp add: sweep_removes_fully_recovered_buckets_def rate_ips_count_def)
  have five: "(5::nat) = Suc (Suc (Suc (Suc (Suc 0))))" by simp
  have "asserts 5 (allow now (test_ip 1)) (rate_limiter_new (Fin 1) 5) = (True, one_bucket 1 5 0 now)"
    unfolding five using new(3) allow_again [of 1 4 5 now] allow_again [of 1 3 5 now]
      allow_again [of 1 2 5 now] allow_again [of 1 1 5 now] by simp
  then show "sweep_keeps_buckets_still_recovering now"
    using allow_again [of 1 0 5 now] sweep_empty [of now]
    by (simp add: sweep_keeps_buckets_still_recovering_def rate_ips_count_def)
qed


section \<open>\<open>route/proxy.rs\<close>\<close>

definition test_policy :: connect_retry_policy where
  "test_policy =
     \<lparr>attempt_timeout = dur_from_millis 200, max_attempts = 4,
      base_delay = dur_from_millis 1, max_delay = dur_from_millis 4\<rparr>"

definition get_delay_first_attempt_is_zero :: bool where
  "get_delay_first_attempt_is_zero \<longleftrightarrow> get_delay DEFAULT 1 = 0"

definition get_delay_doubles_each_attempt :: bool where
  "get_delay_doubles_each_attempt \<longleftrightarrow>
     (let policy = \<lparr>attempt_timeout = dur_from_secs 1, max_attempts = 6,
                    base_delay = dur_from_millis 100, max_delay = dur_from_secs 10\<rparr>
      in get_delay policy 2 = dur_from_millis 100 \<and> get_delay policy 3 = dur_from_millis 200 \<and>
         get_delay policy 4 = dur_from_millis 400 \<and> get_delay policy 5 = dur_from_millis 800)"

definition get_delay_is_capped_at_max_delay :: bool where
  "get_delay_is_capped_at_max_delay \<longleftrightarrow>
     (let policy = \<lparr>attempt_timeout = dur_from_secs 1, max_attempts = 20,
                    base_delay = dur_from_millis 100, max_delay = dur_from_secs 2\<rparr>
      in get_delay policy 14 = dur_from_secs 2 \<and> get_delay policy 20 = dur_from_secs 2)"

definition get_delay_never_panics_on_extreme_attempt_numbers :: bool where
  "get_delay_never_panics_on_extreme_attempt_numbers \<longleftrightarrow>
     (let policy = \<lparr>attempt_timeout = dur_from_millis 1, max_attempts = 0xFFFFFFFF,
                    base_delay = dur_from_millis 1, max_delay = dur_from_millis 5\<rparr>
      in get_delay policy 0xFFFFFFFF = dur_from_millis 5)"

definition retry_with_backoff_returns_first_success_without_retrying :: bool where
  "retry_with_backoff_returns_first_success_without_retrying \<longleftrightarrow>
     (let (result, calls, _) =
            retry_with_backoff test_policy (\<lambda>_ calls :: u32. (Inr 42 :: string + u32, calls + 1)) 0
      in result = Some (Inr 42) \<and> calls = 1)"

definition retry_with_backoff_retries_until_success :: bool where
  "retry_with_backoff_retries_until_success \<longleftrightarrow>
     (let (result, calls, _) =
            retry_with_backoff test_policy
              (\<lambda>attempt calls :: u32. (if attempt < 3 then Inl ''not yet'' else Inr attempt, calls + 1)) 0
      in result = Some (Inr 3) \<and> calls = 3)"

definition retry_with_backoff_gives_up_after_max_attempts :: bool where
  "retry_with_backoff_gives_up_after_max_attempts \<longleftrightarrow>
     (let (result, calls, _) =
            retry_with_backoff test_policy (\<lambda>_ calls :: u32. (Inl ''still down'' :: string + u32, calls + 1)) 0
      in result = Some (Inl ''still down'') \<and> calls = 4)"

text \<open>A listener that accepts, and a port where nothing listens; the statistics start at \<open>now\<close>.\<close>

definition connect_with_backoff_succeeds_on_the_first_attempt :: "string \<Rightarrow> instant \<Rightarrow> bool" where
  "connect_with_backoff_succeeds_on_the_first_attempt addr now \<longleftrightarrow>
     (let listener = (\<lambda>_ _ _. Connected () :: (unit, unit) connect_outcome);
          (result, stats, _) = connect_with_backoff listener addr test_policy (new_stats now)
      in (case result of Some r \<Rightarrow> is_ok r | None \<Rightarrow> False) \<and> proxy_service_connect_retries_total stats = 0)"

definition connect_with_backoff_gives_up_and_counts_retries_on_a_dead_port :: "string \<Rightarrow> instant \<Rightarrow> bool" where
  "connect_with_backoff_gives_up_and_counts_retries_on_a_dead_port addr now \<longleftrightarrow>
     (let dead_port = (\<lambda>_ _ _. Connect_error () :: (unit, unit) connect_outcome);
          (result, stats, _) = connect_with_backoff dead_port addr test_policy (new_stats now)
      in (case result of Some r \<Rightarrow> \<not> is_ok r | None \<Rightarrow> False) \<and> proxy_service_connect_retries_total stats = 3)"

lemma test_policy_attempts: "attempt_numbers test_policy = [1, 2, 3, 4]"
  by (simp add: attempt_numbers_def test_policy_def upt_rec max_def word_le_nat_alt)

lemma test_policy_max: "max_attempts test_policy = 4"
  by (simp add: test_policy_def)

lemma proxy_tests_pass:
  "get_delay_first_attempt_is_zero" "get_delay_doubles_each_attempt" "get_delay_is_capped_at_max_delay"
  "get_delay_never_panics_on_extreme_attempt_numbers"
  "retry_with_backoff_returns_first_success_without_retrying" "retry_with_backoff_retries_until_success"
  "retry_with_backoff_gives_up_after_max_attempts"
  "connect_with_backoff_succeeds_on_the_first_attempt addr now"
  "connect_with_backoff_gives_up_and_counts_retries_on_a_dead_port addr now"
  subgoal by (simp add: get_delay_first_attempt_is_zero_def default_delays)
  subgoal by (simp add: get_delay_doubles_each_attempt_def get_delay_factor std_simps backoff_factor_def)
  subgoal by (simp add: get_delay_is_capped_at_max_delay_def get_delay_factor std_simps backoff_factor_def)
  subgoal by (simp add: get_delay_never_panics_on_extreme_attempt_numbers_def get_delay_factor std_simps
        backoff_factor_def)
  subgoal by (simp add: retry_with_backoff_returns_first_success_without_retrying_def retry_with_backoff_def
        test_policy_attempts Let_def)
  subgoal by (simp add: retry_with_backoff_retries_until_success_def retry_with_backoff_def
        test_policy_attempts Let_def case_prod_unfold word_less_nat_alt)
  subgoal by (simp add: retry_with_backoff_gives_up_after_max_attempts_def retry_with_backoff_def
        test_policy_attempts Let_def case_prod_unfold)
  subgoal by (simp add: connect_with_backoff_succeeds_on_the_first_attempt_def connect_with_backoff_def
        retry_with_backoff_def test_policy_attempts connect_attempt_def Let_def case_prod_unfold new_stats_def)
  subgoal by (simp add: connect_with_backoff_gives_up_and_counts_retries_on_a_dead_port_def connect_with_backoff_def
        retry_with_backoff_def test_policy_attempts connect_attempt_def Let_def case_prod_unfold new_stats_def
        word_less_nat_alt test_policy_max max_def word_le_nat_alt)
  done


end
