(* ===== verification/Spec2Isabelle.thy ===== *)
theory Spec2Isabelle
  imports Concurrency Admission Metrics_Api Rate_Reload Signals Unit_Tests
begin

text \<open>
  A verification development of \<open>reprox\<close>, a TLS front for hidden services: it listens on one port,
  reads the ClientHello of every connection without answering it, and either relays the connection to
  the upstream that the configuration maps its server name to, or terminates TLS itself and serves an
  ordinary static site. Limits on connections per process and per client, metrics, a live reload on
  SIGHUP and a drained shutdown go with it.

  \<^bold>\<open>Theories and source files.\<close> The models follow \<open>src/src/\<close> file by file; definitions keep the names of
  the code.

  \<^item> \<open>Reprox_Prelude\<close>: machine integers, results, maps; \<open>Std_Str\<close>, \<open>Std_Float\<close>, \<open>Std_Time\<close>, \<open>Std_Net\<close>:
    what the code uses of Rust's standard library (printing and parsing of integers, lossy UTF-8,
    binary64 with rounding to nearest, durations and instants, the parser of socket addresses).
  \<^item> \<open>Raii_Gauge\<close>, \<open>Keyed_Limiter\<close>: two interfaces as locales. A gauge is kept by handles, one up at
    creation and one down at drop (interpreted on the two \<open>ActiveGuard\<close> routes in \<open>Stats\<close> and on the
    slots in \<open>Conn_Limiter\<close>); a limiter keeps what it holds per key apart (interpreted on both per-IP
    limiters). \<open>Streams\<close> has a third, \<open>byte_source\<close>, the contract of a readable stream, extended by
    \<open>sniffed_source\<close> and interpreted on scripted sockets.
  \<^item> \<open>Config\<close> (\<open>config.rs\<close>): the settings, their defaults, environment overrides, validation, loading,
    and the warnings of a reload.
  \<^item> \<open>Stats\<close> (\<open>metrics.rs\<close>, counters and guards), \<open>Metrics_Api\<close> (\<open>metrics.rs\<close>, snapshot, Prometheus page,
    loopback server).
  \<^item> \<open>Conn_Limiter\<close> (\<open>limiter.rs\<close>), \<open>Ip_Limiter\<close> (\<open>ip_limiter.rs\<close>), \<open>Rate_Limiter\<close>,
    \<open>Rate_Bound\<close> and \<open>Rate_Reload\<close> (\<open>rate_limiter.rs\<close>: operations and single calls; what a window of time
    admits; sweeps and reloads together).
  \<^item> \<open>Tls\<close> (\<open>tls.rs\<close>), \<open>Static_Site\<close> (\<open>route/fallback.rs\<close>), \<open>Http_Util\<close> (\<open>http_util.rs\<close>), \<open>Http_Serve\<close>
    (\<open>route/serve.rs\<close>), \<open>Proxy\<close> (\<open>route/proxy.rs\<close>), \<open>Streams\<close> (\<open>route/prefixed_stream.rs\<close>,
    \<open>route/capturing_stream.rs\<close>), \<open>Router\<close> (\<open>route/router.rs\<close>).
  \<^item> \<open>Main_Loop\<close> (\<open>main.rs\<close>): the whole process as a step relation; \<open>System_Inv\<close>: its invariant;
    \<open>System_Runs\<close>: what holds along its runs; \<open>Admission\<close>: the specification of its admission control that it
    refines; \<open>Stats_Sum\<close>, \<open>Concurrency\<close>: the statistics as a sum that nothing in the process reads;
    \<open>Signals\<close>: what starts a shutdown. This theory states the properties that span components.
  \<^item> \<open>Unit_Tests\<close>: the repository's own tests, as assertions about the model.

  \<^bold>\<open>State and operations.\<close> Every shared object of the code is a record, every operation a function that
  takes it and returns it updated; the shared \<open>Stats\<close> are passed along explicitly and their counters
  are words that wrap. The process (\<open>system\<close>) holds the limiters, the router, the certificate resolver,
  the configuration, the place of the reload in its sequence of calls, and one entry per connection
  task, which goes from \<open>Spawned\<close> over \<open>Being_served\<close> to \<open>Finished\<close> and can end at any point, as a panic
  makes it. \<open>sys_step\<close> interleaves the steps of the accept loop, the tasks, the janitor, the reload and
  the shutdown signal in any order. Where the code blocks, the step is missing (a full semaphore), and
  where it may not return, the result is an option (the drain).

  \<^bold>\<open>What the lemmas show.\<close> The invariant \<open>sys_inv\<close>: free permits and slots held add up to
  \<open>max_connections\<close>, the \<open>connections\<close> counter is the slots held, each gauge counts the tasks with a
  guard of its route, and the IP limiter's table is a possible history of the tasks alive
  (a refinement: every step of the process is one operation of \<open>Ip_Limiter\<close>'s histories, or none).
  Admission: forgetting limiters, counters and handlers, the process is a set of numbered connections
  and one reservation under a capacity (\<open>adm_step\<close>); \<open>abs_admission\<close> is the abstraction, every step of the
  process is one step of that specification or none, and whatever the specification offers, admitting
  aside, the process can do.
  Snapshots: whatever a task is served under was built from one loaded configuration, and the site of
  startup answers every request. Conservation: what was begun is completed or active, what was
  accepted is refused or spawned. The token bucket: an amortised bound on what a window of time
  admits, carried from the limiter to the runs of the process (\<open>rate_events\<close> is what the limiter sees
  of a run, \<open>admits\<close> counts the tasks that a client's connections get). Per component:
  exact characterisations of validation and parsing with round trips (ALPN lists, numbers, the metrics
  page, which \<open>scrape\<close> reads back, so that a scrape of the process reports its tasks and slots), the equivalence of the backoff arithmetic and of the lazy token bucket with their plain
  forms, the reads of the two stream wrappers against the bytes the client sent, the tree walk against
  the regular files of the tree, the settings of a loaded configuration against the document and the
  environment, what the per-IP limiter admits when its limit is enabled live, and the accounting of
  every request and connection, counter by counter.

  \<^bold>\<open>Bounds.\<close> \<open>MAX_PERMITS\<close> is tokio's bound on a semaphore; theorems on the running process assume
  \<open>max_connections\<close> below it, since the code panics beyond it. The drain reads at most 151 times
  because 150 sleeps of 200 ms make up the 30 s of grace. A burst is exact up to \<open>2 ^ 53\<close>, the integers
  a double holds; the errors of a rounding are \<open>half_ulp\<close> (relative) and \<open>half_subnormal\<close> (absolute),
  and three of them bound a refill. A connect waits at most 13.4 s. The retry loop needs no fuel: it recurs on the list
  of attempt numbers.

  \<^bold>\<open>Parameters.\<close> Code outside the repository is an argument: the semaphore (\<open>semaphore_ok\<close>), the crypto
  provider and the PEM parsers of rustls (\<open>tls_provider\<close>, \<open>provider_supports\<close>), sockets, handshakes and
  \<open>copy_bidirectional\<close> (\<open>net\<close>; the acceptor reads only through the wrapped stream,
  \<open>sniffs_by_reading\<close>), percent-decoding, HTTP dates and header values (\<open>http_lib\<close>, \<open>http_lib_ok\<close>), the
  TOML and JSON libraries, the file system and the environment (\<open>host\<close>, \<open>dir\<close>). Each hypothesis on them
  is documented behaviour, and a sample instance shows that it can hold.

  \<^bold>\<open>Not modelled.\<close> Logging; the SIGHUP stream (its signals and its end are events); the bytes
  that TLS, HTTP and TCP exchange beyond the parameters above; the memory orderings of the atomics (every
  operation on a counter or a lock is one step, and the two loads at the start of \<open>RateLimiter::allow\<close> and
  \<open>sweep\<close> are taken together); the panic of \<open>fmt_http_date\<close> for a clock before the epoch when it formats
  the \<open>date\<close> header (for the dates of the site's files, \<open>http_date\<close>, it is modelled: the site does not load).
\<close>

section \<open>A sample process\<close>

definition sample_env :: "(unit socket_event list, unit, unit, nat) env" where
  "sample_env =
     \<lparr>env_sem = nat_semaphore, env_net = sample_net, env_lib = sample_lib,
      env_versions_ok = (\<lambda>_. True), env_toml = sample_toml\<rparr>"

definition sample_peer :: socket_addr where
  "sample_peer = SocketAddr sample_client 40000 0"

definition sample_startup ::
  "startup_error + (nat, nat, unit socket_event list, nat) system" where
  "sample_startup = startup sample_env sample_host sample_provider (\<lambda>_. sample_dir) True (\<lambda>_. True) 0 0"

lemma sample_key_loads: "load_certified_key sample_provider c k = Inr \<lparr>key_certs = [1], key_signing = 2\<rparr>"
  by (simp add: load_certified_key_def load_certs_def load_key_def sample_provider_def)

lemma sample_env_ok: "semaphore_ok (env_sem sample_env) (\<lambda>n. n)" "provider_supports (env_versions_ok sample_env)"
  by (simp_all add: sample_env_def nat_semaphore_ok provider_supports_def)

lemma sample_env_loads: "try_load (env_toml sample_env) sample_host = Inr sample_config"
  by (simp add: sample_env_def sample_loads)

lemma sample_starts: "\<exists>s. sample_startup = Inr s \<and> sys_config s = sample_config"
proof -
  obtain site where site: "site_try_load sample_date 0 sample_dir = Inr site"
    using sample_site_loads by blast
  obtain r where r: "router_new (\<lambda>_. True) 0 site sample_config = Inr r"
    by (simp add: router_new_def router_state_new_def build_server_config_def)
  have "http_date (env_lib sample_env) = sample_date" "env_versions_ok sample_env = (\<lambda>_. True)"
    by (simp_all add: sample_env_def)
  then show ?thesis
    using site r
    by (simp add: sample_startup_def startup_def sample_env_loads build_cert_resolver_def sample_key_loads
        rbind_ensure Let_def)
qed

lemma sample_rate:
  assumes "sample_startup = Inr s0" "sys_config s0 = sample_config"
  shows "sys_rate s0 = rate_limiter_new (Fin 1) 10"
proof -
  obtain cfg where cfg: "sys_config s0 = cfg"
    "sys_rate s0 = rate_limiter_new (or_default (connection_rate_per_ip cfg) (Fin 0))
       (or_default (connection_burst_per_ip cfg) 10)"
    by (rule startup_Inr [OF assms(1) [unfolded sample_startup_def]]) blast
  then have "cfg = sample_config" using assms(2) by simp
  then show ?thesis using cfg(2) by (simp add: sample_config_def or_default_def)
qed

text \<open>The process after one connection has been accepted.\<close>

abbreviation sample_events :: "(nat, nat, nat, unit socket_event list) event list" where
  "sample_events \<equiv> [Ev_acquire, Ev_accept 0 [] sample_peer]"

lemma sample_runs_net:
  fixes net :: "(unit socket_event list, unit, unit) net"
  shows "\<exists>s0 s. sample_startup = Inr s0 \<and> sys_config s0 = sample_config \<and>
     sys_run (sample_env\<lparr>env_net := net\<rparr>) s0 sample_events s \<and> sys_accept s = Needs_slot \<and>
     sys_tasks s 0 = Some (Spawned [] sample_client) \<and>
     sys_metrics s = Some (SocketAddr (V4 127 0 0 1) 9100 0, sample_config)"
proof -
  obtain s0 where s0: "sample_startup = Inr s0" "sys_config s0 = sample_config"
    using sample_starts by blast
  obtain cfg where cfg: "sys_config s0 = cfg"
    "sys_limiter s0 = connection_limiter_new (env_sem sample_env) (max_connections cfg) (new_stats 0)"
    "sys_ip s0 = ip_limiter_new (or_default (max_connections_per_ip cfg) 0)"
    "sys_rate s0 = rate_limiter_new (or_default (connection_rate_per_ip cfg) (Fin 0))
       (or_default (connection_burst_per_ip cfg) 10)"
    "sys_accept s0 = Needs_slot" "sys_next s0 = 0"
    "sys_metrics s0 = map_option (\<lambda>addr. (addr, cfg)) (metrics_addr cfg)"
    by (rule startup_Inr [OF s0(1) [unfolded sample_startup_def]]) blast
  have c: "cfg = sample_config" using s0(2) cfg(1) by simp
  have lim: "sys_limiter s0 = connection_limiter_new nat_semaphore 2 (new_stats 0)"
    "sys_ip s0 = ip_limiter_new 1" "sys_rate s0 = rate_limiter_new (Fin 1) 10"
    "sys_metrics s0 = Some (SocketAddr (V4 127 0 0 1) 9100 0, sample_config)"
    using cfg by (simp_all add: c sample_env_def) (simp_all add: sample_config_def or_default_def)
  let ?env = "sample_env\<lparr>env_net := net\<rparr>"
  let ?s1 = "s0\<lparr>sys_limiter := (sys_limiter s0)\<lparr>connection_slots := 1,
    limiter_stats := count_slot (new_stats 0)\<rparr>, sys_accept := Holds_slot\<rparr>"
  have s1: "accept_acquire ?env s0 = Some ?s1"
    by (simp add: accept_acquire_def acquire_slot_def lim connection_limiter_new_def sample_env_def
        nat_semaphore_def)
  let ?s = "accept_ok ?env 0 [] sample_peer ?s1"
  have "sys_run ?env s0 sample_events ?s"
    by (rule run_step [OF acquire [OF cfg(5) s1] run_step [OF accept run_nil]]) simp
  moreover have "fst (allow 0 sample_client (rate_limiter_new (Fin 1) 10))"
    by (rule allow_fresh) (simp_all add: rate_limiter_new_def rate_on_def)
  then have "sys_accept ?s = Needs_slot \<and> sys_tasks ?s 0 = Some (Spawned [] sample_client) \<and>
      sys_metrics ?s = sys_metrics s0"
    by (simp add: accept_ok_def case_prod_unfold lim try_acquire_slot_def ip_limiter_new_def
        sample_peer_def Let_def cfg(6))
  ultimately show ?thesis using s0 lim(4) by metis
qed

lemma sample_runs:
  "\<exists>s0 s. sample_startup = Inr s0 \<and> sys_config s0 = sample_config \<and>
     sys_run sample_env s0 sample_events s \<and> sys_accept s = Needs_slot \<and>
     sys_tasks s 0 = Some (Spawned [] sample_client) \<and>
     sys_metrics s = Some (SocketAddr (V4 127 0 0 1) 9100 0, sample_config)"
proof -
  have "sample_env\<lparr>env_net := sample_net\<rparr> = sample_env" by (simp add: sample_env_def)
  then show ?thesis using sample_runs_net [of sample_net] by simp
qed

text \<open>The same connection once it is being served.\<close>

lemma sample_serves:
  "\<exists>s0 s sv. sample_startup = Inr s0 \<and> sys_config s0 = sample_config \<and>
     sys_run sample_env s0 (sample_events @ [Ev_start 0 0]) s \<and>
     sys_tasks s 0 = Some (Being_served sv sample_client)"
proof -
  obtain s0 s where s0: "sample_startup = Inr s0" "sys_config s0 = sample_config"
    and run: "sys_run sample_env s0 sample_events s" and task: "sys_tasks s 0 = Some (Spawned [] sample_client)"
    using sample_runs by blast
  let ?s = "task_start sample_env 0 0 [] sample_client s"
  have "sys_run sample_env s0 (sample_events @ [Ev_start 0 0]) ?s"
    by (rule sys_run_snoc [OF run start [OF task]])
  moreover have "\<exists>sv. sys_tasks ?s 0 = Some (Being_served sv sample_client)"
    by (simp add: task_start_def route_start_def sample_env_def sample_net_def case_prod_unfold Let_def)
  ultimately show ?thesis using s0 by blast
qed

lemma sample_config_simps:
  "max_connections sample_config = 2" "or_default (max_connections_per_ip sample_config) 0 = 1"
  by (simp_all add: sample_config_def or_default_def)


section \<open>Properties of the running process\<close>

text \<open>
  C1: However its handlers interleave, the process never holds more connection slots than the
  \<open>max_connections\<close> it was started with; the \<open>connections\<close> counter and \<open>active_connections\<close> are
  exactly the slots held (one per task, and the one reserved for the next connection), and the
  accept loop waits exactly when all are held.
\<close>

theorem connection_cap:
  assumes "startup env h p dirs install_ok bind_ok wall now = Inr s0" "semaphore_ok (env_sem env) permits"
    and "unat (max_connections (sys_config s0)) \<le> MAX_PERMITS" "sys_run env s0 es s"
  shows "slots_held s \<le> unat (max_connections (sys_config s0)) \<and>
    card (dom (sys_tasks s)) + (if sys_accept s = Holds_slot then 1 else 0) = slots_held s \<and>
    connections (sys_stats s) = of_nat (slots_held s) \<and>
    active_connections (sys_stats s) = int (slots_held s) \<and>
    (accept_acquire env s = None \<longleftrightarrow> slots_held s = unat (max_connections (sys_config s0)))"
proof -
  have slots: "slot_inv permits (unat (max_connections (sys_config s0))) (sys_limiter s, slots_held s)"
    by (rule sys_invD(3) [OF sys_run_inv [OF assms(4,2) startup_inv [OF assms(1-3)]]])
  then have "slots_held s \<le> unat (max_connections (sys_config s0))" "slots_held s < 2 ^ 63"
    using assms(3) by (auto simp: slot_inv_def MAX_PERMITS_def)
  then show ?thesis
    using slots accept_waits [OF assms]
    by (simp add: slot_inv_def slots_held_tasks [symmetric] active_connections_def sint_of_nat_small)
qed

lemma connection_cap_witness:
  "\<exists>s0 s. sample_startup = Inr s0 \<and> sys_run sample_env s0
     sample_events s \<and>
     slots_held s \<le> 2"
proof -
  obtain s0 s where s0: "sample_startup = Inr s0" "sys_config s0 = sample_config"
    and run: "sys_run sample_env s0
      sample_events s"
    using sample_runs by blast
  have "max_connections sample_config = 2" by (simp add: sample_config_def)
  then have "slots_held s \<le> 2"
    using connection_cap [OF s0(1) [unfolded sample_startup_def] sample_env_ok(1) _ run] s0(2)
    by (simp add: MAX_PERMITS_def)
  then show ?thesis using s0 run by blast
qed

text \<open>
  C2: The process refines its admission specification, a set of connections and one reservation under
  the capacity \<open>max_connections\<close>: along every run the specification runs too, admitting the connections in
  the order of their numbers, each once; every step of the process is the step of the specification
  that its label says, or none; and every step the specification offers, admitting aside, the process
  can make.
\<close>

theorem admission_refined:
  fixes es :: "('cert, 'der, 'skey, 's) event list" and p :: "('cert, 'der, 'skey) tls_provider"
  assumes "startup env h p dirs install_ok bind_ok wall now = Inr s0" "semaphore_ok (env_sem env) permits"
    and "unat (max_connections (sys_config s0)) \<le> MAX_PERMITS" "sys_run env s0 es s"
    and "cap = unat (max_connections (sys_config s0))"
  shows "(\<exists>ls. adm_run cap adm_init ls (abs_admission s) \<and> admitted ls = [0..<sys_next s]) \<and>
    (\<forall>(e :: ('cert, 'der, 'skey, 's) event) s'. sys_step env s e s' \<longrightarrow>
       adm_move cap (abs_admission s) (adm_label e s s') (abs_admission s')) \<and>
    (\<forall>l a'. adm_step cap (abs_admission s) l a' \<and> (\<forall>i ip. l \<noteq> Admit i ip) \<longrightarrow>
       (\<exists>(e :: ('cert, 'der, 'skey, 's) event) s'. sys_step env s e s' \<and> adm_label e s s' = Some l \<and>
          abs_admission s' = a'))"
proof (intro conjI allI impI)
  have inv0: "sys_inv permits cap s0" using startup_inv [OF assms(1-3)] assms(5) by simp
  have inv: "sys_inv permits cap s" by (rule sys_run_inv [OF assms(4,2) inv0])
  show "\<exists>ls. adm_run cap adm_init ls (abs_admission s) \<and> admitted ls = [0..<sys_next s]"
    using admission_run [OF assms(4) inv0 assms(2)] startup_admission [OF assms(1)] by auto
  show "adm_move cap (abs_admission s) (adm_label e s s') (abs_admission s')"
    if "sys_step env s e s'" for e :: "('cert, 'der, 'skey, 's) event" and s'
    by (rule admission_moves [OF inv assms(2) that])
  show "\<exists>(e :: ('cert, 'der, 'skey, 's) event) s'. sys_step env s e s' \<and> adm_label e s s' = Some l \<and>
      abs_admission s' = a'"
    if "adm_step cap (abs_admission s) l a' \<and> (\<forall>i ip. l \<noteq> Admit i ip)" for l a'
    using admission_offers [OF inv assms(2)] that by blast
qed

lemma admission_refined_witness:
  "\<exists>s0 s ls. sample_startup = Inr s0 \<and> sys_run sample_env s0 sample_events s \<and>
     adm_run (unat (max_connections sample_config)) adm_init ls (abs_admission s) \<and>
     adm_live (abs_admission s) 0 = Some sample_client"
proof -
  obtain s0 s where s: "sample_startup = Inr s0" "sys_config s0 = sample_config"
    "sys_run sample_env s0 sample_events s" "sys_tasks s 0 = Some (Spawned [] sample_client)"
    using sample_runs by blast
  have "unat (max_connections (sys_config s0)) \<le> MAX_PERMITS"
    using s(2) by (simp add: MAX_PERMITS_def sample_config_simps)
  from admission_refined [OF s(1) [unfolded sample_startup_def] sample_env_ok(1) this s(3) refl]
  obtain ls where "adm_run (unat (max_connections sample_config)) adm_init ls (abs_admission s)"
    using s(2) by auto
  moreover have "adm_live (abs_admission s) 0 = Some sample_client" by (simp add: abs_admission_def s(4))
  ultimately show ?thesis using s by blast
qed

text \<open>
  C3: In every state the process can reach, the two gauges of active connections are exactly the
  tasks that hold a guard of their route, so together they never exceed the tasks alive; per route,
  the connections begun are those completed and those active; and every connection accepted was
  refused by a limit or got a task of its own (\<open>sys_next\<close> tasks have been spawned).
\<close>

theorem gauges_count_tasks:
  assumes "startup env h p dirs install_ok bind_ok wall now = Inr s0" "semaphore_ok (env_sem env) permits"
    and "unat (max_connections (sys_config s0)) \<le> MAX_PERMITS" "sys_run env s0 es s"
  shows "active_proxied (sys_stats s) = of_nat (tcount (guarded Proxied) (sys_tasks s)) \<and>
    active_fallback (sys_stats s) = of_nat (tcount (guarded Fallback) (sys_tasks s)) \<and>
    tcount (guarded Proxied) (sys_tasks s) + tcount (guarded Fallback) (sys_tasks s)
      \<le> card (dom (sys_tasks s)) \<and>
    connections_proxied_total (sys_stats s)
      = connections_proxied_completed_total (sys_stats s) + active_proxied (sys_stats s) \<and>
    connections_fallback_total (sys_stats s)
      = connections_fallback_completed_total (sys_stats s) + active_fallback (sys_stats s) \<and>
    connections_rejected_rate_limit_total (sys_stats s) + connections_rejected_ip_limit_total (sys_stats s)
      + of_nat (sys_next s) = of_nat (length (filter is_accept es))"
proof -
  have inv: "sys_inv permits (unat (max_connections (sys_config s0))) s"
    by (rule sys_run_inv [OF assms(4,2) startup_inv [OF assms(1-3)]])
  have "tcount (guarded Proxied) (sys_tasks s) + tcount (guarded Fallback) (sys_tasks s)
      \<le> tcount (\<lambda>_. True) (sys_tasks s)"
    by (rule tcount_disjoint [OF sys_invD(1) [OF inv]]) (auto simp: guarded_def split: option.splits)
  moreover have "balanced (sys_stats s)" "seen s = of_nat (length (filter is_accept es))"
    using run_balance [OF assms(4)] startup_balance [OF assms(1)] by simp_all
  ultimately show ?thesis
    using sys_invD(4) [OF inv, of Proxied] sys_invD(4) [OF inv, of Fallback]
    by (simp add: guard_gauge_def tcount_True balanced_def seen_def rejected_def)
qed

lemma gauges_count_tasks_witness:
  "\<exists>s0 s. sample_startup = Inr s0 \<and> sys_run sample_env s0
     sample_events s \<and>
     active_proxied (sys_stats s) = of_nat (tcount (guarded Proxied) (sys_tasks s))"
proof -
  obtain s0 s where s0: "sample_startup = Inr s0" "sys_config s0 = sample_config"
    and run: "sys_run sample_env s0
      sample_events s"
    using sample_runs by blast
  have "max_connections sample_config = 2" by (simp add: sample_config_def)
  then have "active_proxied (sys_stats s) = of_nat (tcount (guarded Proxied) (sys_tasks s))"
    using gauges_count_tasks [OF s0(1) [unfolded sample_startup_def] sample_env_ok(1) _ run] s0(2)
    by (simp add: MAX_PERMITS_def)
  then show ?thesis using s0 run by blast
qed

text \<open>
  C4: When the process is started with a per-IP limit of at most \<open>m\<close> and no reload disables it or
  raises it above \<open>m\<close>, no client address but a loopback one ever has more than \<open>m\<close> connections
  alive at once.
\<close>

theorem ip_cap_holds:
  assumes "startup env h p dirs install_ok bind_ok wall now = Inr s0" "semaphore_ok (env_sem env) permits"
    and "unat (max_connections (sys_config s0)) \<le> MAX_PERMITS"
    and "or_default (max_connections_per_ip (sys_config s0)) 0 \<noteq> 0"
    and "unat (or_default (max_connections_per_ip (sys_config s0)) 0) \<le> m"
    and "sys_run env s0 es s" "reloads_limit env m es" "\<not> is_loopback a"
  shows "live_slots s a \<le> m"
  using sys_run_ip_exact [OF assms(6,2) startup_inv [OF assms(1-3)] assms(7)
      startup_ip_exact(2,1) [OF assms(1,4,5)]] assms(8)
  by (simp add: ip_exact_def)

lemma ip_cap_holds_witness:
  "\<exists>s0 s. sample_startup = Inr s0 \<and> sys_run sample_env s0
     sample_events s \<and>
     live_slots s sample_client \<le> 1"
proof -
  let ?es = "sample_events"
  obtain s0 s where s0: "sample_startup = Inr s0" "sys_config s0 = sample_config"
    and run: "sys_run sample_env s0 ?es s"
    using sample_runs by blast
  have cfg: "max_connections sample_config = 2" "or_default (max_connections_per_ip sample_config) 0 = 1"
    by (simp_all add: sample_config_def or_default_def)
  have lim: "reloads_limit sample_env 1 ?es" by (simp add: reloads_limit_def)
  have "live_slots s sample_client \<le> 1"
    by (rule ip_cap_holds [OF s0(1) [unfolded sample_startup_def] sample_env_ok(1) _ _ _ run lim])
      (simp_all add: s0(2) cfg MAX_PERMITS_def)
  then show ?thesis using s0 run by blast
qed

text \<open>
  C5: In any window of \<open>d\<close> nanoseconds of a run in which no reload changes the limits, the connections
  of one client address that get a task are at most the burst plus what the rate earns in that time,
  up to the rounding of binary64: a relative 2^-51 of the rate and (burst + 1) / 2^53 for each
  connection the client attempted. Nothing else that happens in the process matters.
\<close>

theorem rate_cap_holds:
  assumes "startup env h p dirs install_ok bind_ok wall now = Inr s0" "semaphore_ok (env_sem env) permits"
    and "unat (max_connections (sys_config s0)) \<le> MAX_PERMITS" "sys_run env s0 before s"
    and "admits env ip s es n s'" "Ev_reload_next \<notin> set es" "\<not> is_loopback ip"
    and "refill_per_sec (sys_rate s) = Fin r" "0 < r" "unat (capacity (sys_rate s)) \<le> 2 ^ 53"
    and "sorted (map event_time (rate_events es))" "d \<le> DURATION_MAX"
    and "\<forall>e \<in> set (rate_events es). t0 \<le> event_time e \<and> event_time e \<le> t0 + d"
  shows "of_nat n \<le>
    of_nat (unat (capacity (sys_rate s))) + (1 + 1 / 2 ^ 51) * r * secs d +
    of_nat (attempts ip (rate_events es)) * ((of_nat (unat (capacity (sys_rate s))) + 1) / 2 ^ 53)"
proof -
  have inv: "sys_inv permits (unat (max_connections (sys_config s0))) s"
    by (rule sys_run_inv [OF assms(4,2) startup_inv [OF assms(1-3)]])
  then have "rate_inv (sys_rate s)" by (simp add: sys_inv_def rate_sane_def)
  then have "of_nat (granted ip (rate_events es) (sys_rate s)) \<le>
      of_nat (unat (capacity (sys_rate s))) + (1 + 1 / 2 ^ 51) * r * secs d +
      of_nat (attempts ip (rate_events es)) * ((of_nat (unat (capacity (sys_rate s))) + 1) / 2 ^ 53)"
    by (rule granted_bound [OF assms(8,9) _ assms(7,10,11,13,12)])
  moreover have "(of_nat n :: rat) \<le> of_nat (granted ip (rate_events es) (sys_rate s))"
    using admits_granted [OF assms(5,6)] by (simp only: of_nat_le_iff)
  ultimately show ?thesis by linarith
qed

lemma rate_cap_holds_witness:
  "\<exists>s0 s n. sample_startup = Inr s0 \<and> admits sample_env sample_client s0 sample_events n s \<and> n \<le> 10"
proof -
  obtain s0 s where s0: "sample_startup = Inr s0" "sys_config s0 = sample_config"
    and run: "sys_run sample_env s0 sample_events s"
    using sample_runs by blast
  obtain n where n: "admits sample_env sample_client s0 sample_events n s"
    using run run_iff_admits by blast
  have rate: "sys_rate s0 = rate_limiter_new (Fin 1) 10"
    using s0 by (rule sample_rate)
  have "of_nat n \<le> (10 + (1 + 1 / 2 ^ 51) * 1 * secs 0 + of_nat (attempts sample_client
      (rate_events sample_events)) * ((10 + 1) / 2 ^ 53) :: rat)"
    using rate_cap_holds [OF s0(1) [unfolded sample_startup_def] sample_env_ok(1) _ run_nil n, of 1 0 0]
    by (simp add: rate s0(2) sample_config_simps MAX_PERMITS_def rate_limiter_new_def)
  also have "\<dots> < of_nat 11" by (simp add: secs_def attempts_def sample_peer_def)
  finally have "n < 11" by (simp only: of_nat_less_iff)
  then show ?thesis using s0 n by (intro exI [of _ s0] exI [of _ s] exI [of _ n]) simp
qed

text \<open>
  C6: A reload is a run of the process, and when nothing interleaves with it, it is all or nothing:
  when the configuration or the certificate does not load, nothing changes; otherwise the
  certificate, the routes, the TLS settings (the minimum version included), the configuration and
  both limits are the new ones, while the tasks, the counters, the slots, the tracked addresses and
  the site stay as they are.
\<close>

theorem reload_all_or_nothing:
  assumes "provider_supports (env_versions_ok env)" "sys_reload s = Watching"
  shows "let s' = snd (hot_reload env h p s) in
    (\<exists>es. set es \<subseteq> {Ev_reload h p, Ev_reload_next} \<and> sys_run env s es s') \<and>
    (case try_load (env_toml env) h of
      Inl _ \<Rightarrow> s' = s
    | Inr cfg \<Rightarrow>
        (case load_certified_key p (tls_cert_path cfg) (tls_key_path cfg) of
           Inl _ \<Rightarrow> s' = s
         | Inr key \<Rightarrow>
             sys_config s' = cfg \<and> cert_key (sys_resolver s') = key \<and>
             r_state (sys_router s') =
               \<lparr>rs_routes = routes_table (routes cfg),
                rs_server_config = \<lparr>sc_versions = tls_versions cfg,
                                    sc_resolver = r_cert_resolver (sys_router s),
                                    sc_alpn = default_alpn_protocols\<rparr>,
                rs_config = cfg\<rparr> \<and>
             max_per_ip (sys_ip s') = or_default (max_connections_per_ip cfg) 0 \<and>
             refill_per_sec (sys_rate s') = or_default (connection_rate_per_ip cfg) (Fin 0) \<and>
             capacity (sys_rate s') = or_default (connection_burst_per_ip cfg) 10 \<and>
             sys_tasks s' = sys_tasks s \<and> sys_limiter s' = sys_limiter s \<and>
             slots (sys_ip s') = slots (sys_ip s) \<and> buckets (sys_rate s') = buckets (sys_rate s) \<and>
             r_site (sys_router s') = r_site (sys_router s) \<and> sys_reload s' = Watching))"
proof (cases "try_load (env_toml env) h")
  case (Inl e)
  then have "snd (reload_load env h p s) = s" by (simp add: reload_load_def)
  then show ?thesis using hot_reload_failed [OF assms(2)] hot_reload_run [OF assms(2), where env = env and h = h and p = p] Inl by simp
next
  case (Inr cfg)
  show ?thesis
  proof (cases "load_certified_key p (tls_cert_path cfg) (tls_key_path cfg)")
    case (Inl e)
    then have "snd (reload_load env h p s) = s"
      using \<open>try_load _ _ = _\<close> by (simp add: reload_load_def Let_def)
    then show ?thesis using hot_reload_failed [OF assms(2)] hot_reload_run [OF assms(2), where env = env and h = h and p = p] \<open>try_load _ _ = _\<close> Inl
      by simp
  next
    case (Inr key)
    then show ?thesis using hot_reload_done [OF assms \<open>try_load _ _ = _\<close> Inr] \<open>try_load _ _ = _\<close>
        hot_reload_run [OF assms(2), where env = env and h = h and p = p]
      by (simp add: Let_def ip_set_limit_def)
  qed
qed

lemma reload_all_or_nothing_witness:
  "\<exists>s0. sample_startup = Inr s0 \<and>
     sys_config (snd (hot_reload sample_env sample_host sample_provider s0)) = sample_config \<and>
     cert_key (sys_resolver (snd (hot_reload sample_env sample_host sample_provider s0)))
       = \<lparr>key_certs = [1], key_signing = 2\<rparr>"
proof -
  obtain s0 where s0: "sample_startup = Inr s0" using sample_starts by blast
  then have "sys_reload s0 = Watching"
    by (metis sample_startup_def startup_Inr)
  then show ?thesis
    using reload_all_or_nothing [OF sample_env_ok(2), of s0 sample_host sample_provider] s0
    unfolding sample_env_loads sample_key_loads Let_def sum.case by blast
qed

text \<open>
  C7: A reload logs a warning for each setting it cannot apply that differs between the configuration
  it loads and the one compared with, for that setting and no other, and each at most once. The one
  compared with is the configuration of the last reload that succeeded, not the one in force: the
  same files loaded again log nothing, although the limiter of connections, the site and the
  metrics listener are still the old ones, and any later reload is compared with those files.
\<close>

theorem reload_warnings:
  assumes "provider_supports (env_versions_ok env)" "sys_reload s = Watching"
    and "try_load (env_toml env) h = Inr cfg"
    and "load_certified_key p (tls_cert_path cfg) (tls_key_path cfg) = Inr key"
  shows "let old = sys_config s; warnings = fst (hot_reload env h p s);
             s' = snd (hot_reload env h p s); s'' = snd (hot_reload env h p s') in
    distinct warnings \<and>
    (ListenAddrChanged \<in> set warnings \<longleftrightarrow> listen_addr old \<noteq> listen_addr cfg) \<and>
    (MetricsAddrChanged \<in> set warnings \<longleftrightarrow> metrics_addr old \<noteq> metrics_addr cfg) \<and>
    (TlsMinVersionChanged \<in> set warnings \<longleftrightarrow> tls_min_version old \<noteq> tls_min_version cfg) \<and>
    (MaxConnectionsChanged \<in> set warnings \<longleftrightarrow> max_connections old \<noteq> max_connections cfg) \<and>
    (StaticDirChanged \<in> set warnings \<longleftrightarrow> \<not> path_eq (static_dir old) (static_dir cfg)) \<and>
    (warnings = [] \<longleftrightarrow>
       listen_addr old = listen_addr cfg \<and> metrics_addr old = metrics_addr cfg \<and>
       tls_min_version old = tls_min_version cfg \<and> max_connections old = max_connections cfg \<and>
       path_eq (static_dir old) (static_dir cfg)) \<and>
    fst (hot_reload env h p s') = [] \<and>
    sys_limiter s'' = sys_limiter s \<and> r_site (sys_router s'') = r_site (sys_router s) \<and>
    sys_metrics s'' = sys_metrics s \<and>
    (\<forall>h2 p2. fst (hot_reload env h2 p2 s') =
       (case try_load (env_toml env) h2 of
          Inl err \<Rightarrow> [] | Inr cfg2 \<Rightarrow> warn_about_unreloadable_changes cfg cfg2))"
proof -
  note done_s = hot_reload_done [OF assms]
  have "sys_config (snd (hot_reload env h p s)) = cfg" by (simp add: done_s)
  then have later: "fst (hot_reload env h2 p2 (snd (hot_reload env h p s))) =
      (case try_load (env_toml env) h2 of
         Inl err \<Rightarrow> [] | Inr cfg2 \<Rightarrow> warn_about_unreloadable_changes cfg cfg2)" for h2 p2
    by (simp add: hot_reload_unloadable hot_reload_warnings split: sum.split)
  have kept: "sys_limiter (snd (hot_reload env h p t)) = sys_limiter t"
    "r_site (sys_router (snd (hot_reload env h p t))) = r_site (sys_router t)"
    "sys_metrics (snd (hot_reload env h p t)) = sys_metrics t"
    "sys_reload (snd (hot_reload env h p t)) = Watching" if "sys_reload t = Watching" for t
    by (simp_all add: hot_reload_done [OF assms(1) that assms(3,4)])
  show ?thesis
    unfolding Let_def hot_reload_warnings [OF assms(3)]
    by (intro conjI allI warnings_distinct warned_iff no_warning_iff later)
      (simp_all add: kept assms(2) \<open>sys_config _ = cfg\<close> no_warning_iff)
qed

lemma reload_warnings_witness:
  "\<exists>s0. let s = s0\<lparr>sys_config := sample_config\<lparr>max_connections := 5\<rparr>\<rparr> in
     sample_startup = Inr s0 \<and>
     fst (hot_reload sample_env sample_host sample_provider s) = [MaxConnectionsChanged] \<and>
     fst (hot_reload sample_env sample_host sample_provider
       (snd (hot_reload sample_env sample_host sample_provider s))) = []"
proof -
  obtain s0 where s0: "sample_startup = Inr s0" using sample_starts by blast
  then have watching: "sys_reload s0 = Watching" by (metis sample_startup_def startup_Inr)
  let ?s = "s0\<lparr>sys_config := sample_config\<lparr>max_connections := 5\<rparr>\<rparr>"
  have "fst (hot_reload sample_env sample_host sample_provider ?s) = [MaxConnectionsChanged]"
    by (simp add: hot_reload_warnings [OF sample_env_loads] warn_about_unreloadable_changes_def
        sample_config_simps)
  moreover have "sys_reload ?s = Watching" using watching by simp
  from reload_warnings [OF sample_env_ok(2) this sample_env_loads sample_key_loads, unfolded Let_def]
  have "fst (hot_reload sample_env sample_host sample_provider
      (snd (hot_reload sample_env sample_host sample_provider ?s))) = []" by blast
  ultimately show ?thesis using s0 by (intro exI [of _ s0]) (simp add: Let_def)
qed

text \<open>
  C8: A connection in flight is served under one snapshot: the table, the TLS settings and the
  settings all come from one configuration, loaded at startup or by a SIGHUP of the run; its
  route and guard come from one lookup in that table; and no step, a reload included, changes it
  until the connection itself goes on.
\<close>

theorem snapshots_consistent:
  fixes es :: "('cert, 'der, 'skey, 's) event list"
  assumes "startup env h p dirs install_ok bind_ok wall now = Inr s0" "semaphore_ok (env_sem env) permits"
    and "unat (max_connections (sys_config s0)) \<le> MAX_PERMITS" "sys_run env s0 es s"
    and "sys_tasks s i = Some (Being_served sv a)"
  shows "(\<exists>cfg. built_from cfg (sv_state sv) \<and>
        (cfg = sys_config s0 \<or> (\<exists>h' p'. Ev_reload h' p' \<in> set es \<and> try_load (env_toml env) h' = Inr cfg))) \<and>
    (\<exists>name. route_target (sv_state sv) name = sv_target sv) \<and>
    guard_route (sv_guard sv) = (case sv_target sv of Some _ \<Rightarrow> Proxied | None \<Rightarrow> Fallback) \<and>
    (\<forall>(e :: ('cert, 'der, 'skey, 's) event) s'. sys_step env s e s' \<longrightarrow>
       sys_tasks s' i = sys_tasks s i \<or> e = Ev_body i \<or> (\<exists>now. e = Ev_end i now))"
proof -
  let ?P = "\<lambda>cfg. cfg = sys_config s0 \<or>
    (\<exists>h' p'. Ev_reload h' p' \<in> set es \<and> try_load (env_toml env) h' = Inr cfg)"
  have inv: "sys_inv permits (unat (max_connections (sys_config s0))) s"
    by (rule sys_run_inv [OF assms(4,2) startup_inv [OF assms(1-3)]])
  have "snapshots_ok ?P s"
    by (rule run_snapshots [OF assms(4) startup_snapshots [OF assms(1)]]) blast+
  then have "snapshot_ok ?P sv" using assms(5) unfolding snapshots_ok_def by blast
  moreover have "i < sys_next s"
    using inv assms(5) by (force simp: sys_inv_def tasks_wf_def not_le [symmetric])
  ultimately show ?thesis
    using step_in_flight [OF _ assms(5)] unfolding snapshot_ok_def by blast
qed

lemma snapshots_consistent_witness:
  "\<exists>s0 s sv. sample_startup = Inr s0 \<and> sys_run sample_env s0 (sample_events @ [Ev_start 0 0]) s \<and>
     sys_tasks s 0 = Some (Being_served sv sample_client) \<and> built_from sample_config (sv_state sv)"
proof -
  obtain s0 s sv where s: "sample_startup = Inr s0" "sys_config s0 = sample_config"
    "sys_run sample_env s0 (sample_events @ [Ev_start 0 0]) s"
    "sys_tasks s 0 = Some (Being_served sv sample_client)"
    using sample_serves by blast
  have "\<exists>cfg. built_from cfg (sv_state sv) \<and> cfg = sample_config"
    using snapshots_consistent [OF s(1) [unfolded sample_startup_def] sample_env_ok(1) _ s(3,4)] s(2)
    by (simp add: MAX_PERMITS_def sample_config_simps)
  then show ?thesis using s by blast
qed

text \<open>
  C9: From end to end, requests are answered only on the fallback route, and only from the site that
  was loaded at startup: in every state the process can reach, whatever has been reloaded, a 200
  carries nothing or the contents of a regular file of the tree below the \<open>static_dir\<close> of startup, a
  404 nothing or the site's not-found page, and every response has the four security headers and
  the \<open>server\<close> header of the connection's own snapshot.
\<close>

theorem responses_from_site:
  assumes "startup env h p dirs install_ok bind_ok wall now = Inr s0" "sys_run env s0 es s"
    and "sys_tasks s i = Some (Being_served sv a)"
    and "fst (route_body (env_versions_ok env) (env_lib env) (env_net env) (sys_router s) sv (sys_stats s))
      = (res, Some (protocol, resps))"
    and "resp \<in> set resps"
  shows "sv_target sv = None \<and> status resp \<in> {200, 204, 304, 404, 405} \<and>
    (status resp = 200 \<longrightarrow> resp_body resp = [] \<or>
       (\<exists>(rel, bs, m) \<in> set (tree_files [] (dirs (static_dir (sys_config s0)))). resp_body resp = bs)) \<and>
    (status resp = 404 \<longrightarrow> resp_body resp \<in> {[], fe_bytes (not_found (r_site (sys_router s0)))}) \<and>
    (status resp \<in> {204, 304} \<longrightarrow> resp_body resp = []) \<and>
    resp_headers resp ''strict-transport-security'' = Some ''max-age=63072000; includeSubDomains; preload'' \<and>
    resp_headers resp ''x-content-type-options'' = Some ''nosniff'' \<and>
    resp_headers resp ''x-frame-options'' = Some ''SAMEORIGIN'' \<and>
    resp_headers resp ''referrer-policy'' = Some ''strict-origin-when-cross-origin'' \<and>
    (header_value_from_str (env_lib env) (server_header (rs_config (sv_state sv))) \<longrightarrow>
       resp_headers resp ''server'' = Some (server_header (rs_config (sv_state sv))))"
proof -
  obtain t req where resp: "resp = respond (env_lib env) t req (r_site (sys_router s0)) (rs_config (sv_state sv))"
    using route_body_served(2) [OF assms(4,5)] run_site [OF assms(2)] by auto
  have files: "\<exists>(rel, bs, m) \<in> set (tree_files [] (dirs (static_dir (sys_config s0)))). fe_bytes e = bs"
    if "resolve (r_site (sys_router s0)) path = Some e" for path e
    using resolve_in_tree [OF startup_site [OF assms(1)] that] by fast
  show ?thesis
    unfolding resp
    by (intro conjI impI route_body_served(1) [OF assms(4)] respond_status respond_headers respond_server)
       (use respond_contents [of "env_lib env" t req "r_site (sys_router s0)" "rs_config (sv_state sv)"]
          files in \<open>auto\<close>)
qed

text \<open>A network on which the ClientHello names no server, the handshake succeeds and one request comes.\<close>

definition site_net :: "(unit socket_event list, unit, unit) net" where
  "site_net = sample_net
     \<lparr>net_sniff := (\<lambda>d cs. Client_hello None cs), net_handshake := (\<lambda>_ _ _. Handshake_ok None),
      net_requests := (\<lambda>_. [(0, sample_request)])\<rparr>"

lemma responses_from_site_witness:
  "\<exists>s0 s sv (resp :: response). sample_startup = Inr s0 \<and>
     sys_run (sample_env\<lparr>env_net := site_net\<rparr>) s0 (sample_events @ [Ev_start 0 0]) s \<and>
     sys_tasks s 0 = Some (Being_served sv sample_client) \<and>
     status resp \<in> {200, 204, 304, 404, 405} \<and> resp_headers resp ''x-frame-options'' = Some ''SAMEORIGIN''"
proof -
  let ?env = "sample_env\<lparr>env_net := site_net\<rparr>"
  obtain s0 s where s0: "sample_startup = Inr s0" and run: "sys_run ?env s0 sample_events s"
    and task: "sys_tasks s 0 = Some (Spawned [] sample_client)"
    using sample_runs_net [of site_net] by blast
  let ?s = "task_start ?env 0 0 [] sample_client s"
  have run': "sys_run ?env s0 (sample_events @ [Ev_start 0 0]) ?s"
    by (rule sys_run_snoc [OF run start [OF task]])
  obtain sv where sv: "sys_tasks ?s 0 = Some (Being_served sv sample_client)" "sv_target sv = None"
    by (simp add: task_start_def route_start_def site_net_def case_prod_unfold Let_def route_target_def)
  have start: "startup ?env sample_host sample_provider (\<lambda>_. sample_dir) True (\<lambda>_. True) 0 0 = Inr s0"
    using s0 by (simp add: sample_startup_def startup_def)
  obtain resps st' where hs: "handle_all sample_lib (r_site (sys_router ?s)) (rs_config (sv_state sv))
      [(0, sample_request)] (count_alpn None ((sys_stats ?s)\<lparr>fallback_tls_handshake_success_total :=
        fallback_tls_handshake_success_total (sys_stats ?s) + 1\<rparr>)) = (resps, st')" "resps \<noteq> []"
    by (simp add: case_prod_unfold Let_def)
  have body: "fst (route_body (env_versions_ok ?env) (env_lib ?env) (env_net ?env) (sys_router ?s) sv (sys_stats ?s))
      = (Inr (), Some (Http1_with_upgrades, resps))"
    using sv(2) hs(1) by (simp add: route_body_def serve_def site_net_def sample_env_def Let_def)
  note r = responses_from_site [OF start run' sv(1) body hd_in_set [OF hs(2)]]
  then show ?thesis using s0 run' sv(1) by blast
qed

text \<open>
  C10: Every TLS handshake of the process, under the snapshot of any connection in flight and with the
  ALPN list of any route, presents the resolver's current key; that key was loaded with the startup
  or with a reload of the run, from the files that a loaded configuration names, and passed the
  checks of \<open>load_certified_key\<close>; the versions offered are those of the snapshot's settings.
  The key is that of the moment of the handshake, the versions are those of the snapshot: a
  connection routed by the table of before a reload may be shown the certificate of after it
  (\<open>reload_window\<close>), which the README rules out.
\<close>

theorem handshakes_present_loaded_key:
  fixes es :: "('cert, 'der, 'skey, 's) event list" and p :: "('cert, 'der, 'skey) tls_provider"
  assumes "startup env h p dirs install_ok bind_ok wall now = Inr s0" "sys_run env s0 es s"
    and "sys_tasks s i = Some (Being_served sv a)"
    and "sc = rs_server_config (sv_state sv) \<or>
      build_server_config (env_versions_ok env) (r_cert_resolver (sys_router s)) alpn (rs_config (sv_state sv)) = Inr sc"
  shows "\<exists>h' p' cfg key. presented [0 \<mapsto> sys_resolver s] sc hello = Some key \<and> key = cert_key (sys_resolver s) \<and>
    ((h', p') = (h, p) \<or> Ev_reload h' p' \<in> set es) \<and> try_load (env_toml env) h' = Inr cfg \<and>
    load_certified_key p' (tls_cert_path cfg) (tls_key_path cfg) = Inr key \<and>
    sc_versions sc = tls_versions (rs_config (sv_state sv))"
proof -
  let ?P = "\<lambda>key. \<exists>h' p' cfg. ((h', p') = (h, p) \<or> Ev_reload h' p' \<in> set es) \<and>
    try_load (env_toml env) h' = Inr cfg \<and> load_certified_key p' (tls_cert_path cfg) (tls_key_path cfg) = Inr key"
  have certs: "certs_ok ?P s"
    by (rule run_certs [OF assms(2) startup_certs [OF assms(1)]]) blast+
  have "snapshots_ok (\<lambda>_. True) s"
    by (rule run_snapshots [OF assms(2) startup_snapshots [OF assms(1)]]) simp_all
  then have "sc_versions (rs_server_config (sv_state sv)) = tls_versions (rs_config (sv_state sv))"
    using assms(3) unfolding snapshots_ok_def snapshot_ok_def built_from_def by blast
  moreover have "sc_resolver (rs_server_config (sv_state sv)) = 0" "r_cert_resolver (sys_router s) = 0"
    using certs assms(3) unfolding certs_ok_def by blast+
  ultimately have sc: "sc_resolver sc = 0" "sc_versions sc = tls_versions (rs_config (sv_state sv))"
    using assms(4) by (auto simp: build_server_config_def Let_def split: if_splits)
  then have "presented [0 \<mapsto> sys_resolver s] sc hello = Some (cert_key (sys_resolver s))"
    by (simp add: presented_def cert_resolver_resolve_def)
  moreover have "?P (cert_key (sys_resolver s))" using certs by (simp add: certs_ok_def)
  ultimately show ?thesis using sc(2) by blast
qed

lemma handshakes_present_loaded_key_witness:
  "\<exists>s0 s sv. sample_startup = Inr s0 \<and> sys_run sample_env s0 (sample_events @ [Ev_start 0 0]) s \<and>
     sys_tasks s 0 = Some (Being_served sv sample_client) \<and>
     presented [0 \<mapsto> sys_resolver s] (rs_server_config (sv_state sv)) () = Some \<lparr>key_certs = [1], key_signing = 2\<rparr>"
proof -
  obtain s0 s sv where s: "sample_startup = Inr s0" "sys_run sample_env s0 (sample_events @ [Ev_start 0 0]) s"
    "sys_tasks s 0 = Some (Being_served sv sample_client)"
    using sample_serves by blast
  show ?thesis
    using handshakes_present_loaded_key [OF s(1) [unfolded sample_startup_def] s(2,3) disjI1 [OF refl], of "()"] s
    by (fastforce simp: sample_key_loads)
qed

text \<open>
  C11: The accept loop is never stuck: whenever it waits for a slot, it either gets one at once, or
  there are connections alive and the end of any one of them lets it go on.
\<close>

theorem accept_loop_progress:
  fixes es :: "('cert, 'der, 'skey, 's) event list" and p :: "('cert, 'der, 'skey) tls_provider"
  assumes "startup env h p dirs install_ok bind_ok wall now = Inr s0" "semaphore_ok (env_sem env) permits"
    and "unat (max_connections (sys_config s0)) \<le> MAX_PERMITS" "sys_run env s0 es s"
    and "sys_accept s = Needs_slot"
  shows "(\<exists>s'. accept_acquire env s = Some s') \<or>
    dom (sys_tasks s) \<noteq> {} \<and>
    (\<forall>i t u. sys_tasks s i = Some t \<longrightarrow> (\<exists>s'. accept_acquire env (task_end env u i t s) = Some s'))"
proof (cases "accept_acquire env s")
  case None
  let ?n = "unat (max_connections (sys_config s0))"
  have held: "slots_held s = ?n" using None accept_waits [OF assms(1-4)] by simp
  then have "dom (sys_tasks s) \<noteq> {}"
    using startup_some_slot [OF assms(1)] assms(5) by (auto simp: slots_held_tasks)
  moreover have "\<exists>s'. accept_acquire env (task_end env u i t s) = Some s'" if t: "sys_tasks s i = Some t" for i t u
  proof -
    have fin: "finite (dom (sys_tasks s))"
      by (rule sys_invD(1) [OF sys_run_inv [OF assms(4,2) startup_inv [OF assms(1-3)]]])
    have run: "sys_run env s0 (es @ [Ev_end i u]) (task_end env u i t s)"
      by (rule sys_run_snoc [OF assms(4) finish [OF t]])
    then have "accept_acquire env (task_end env u i t s) \<noteq> None"
      using accept_waits [OF assms(1-3) run] held task_end_slots [OF fin t, of env u] by simp
    then show ?thesis by blast
  qed
  ultimately show ?thesis by blast
qed blast

lemma accept_loop_progress_witness:
  "\<exists>s0 s s'. sample_startup = Inr s0 \<and> sys_run sample_env s0 sample_events s \<and>
     (accept_acquire sample_env s = Some s' \<or> dom (sys_tasks s) \<noteq> {})"
proof -
  obtain s0 s where s: "sample_startup = Inr s0" "sys_config s0 = sample_config"
    "sys_run sample_env s0 sample_events s" "sys_accept s = Needs_slot"
    using sample_runs by blast
  show ?thesis
    using accept_loop_progress [OF s(1) [unfolded sample_startup_def] sample_env_ok(1) _ s(3,4)] s
    by (fastforce simp: MAX_PERMITS_def sample_config_simps)
qed

text \<open>
  C12: After a shutdown signal the counter of active connections is exactly the number of tasks
  alive; no connection is ever accepted again; and the process can always drain: ending the tasks
  that are alive, one step each, brings the counter to zero.
\<close>

theorem shutdown_drains:
  fixes es :: "('cert, 'der, 'skey, 's) event list"
  assumes "startup env h p dirs install_ok bind_ok wall now = Inr s0" "semaphore_ok (env_sem env) permits"
    and "unat (max_connections (sys_config s0)) \<le> MAX_PERMITS" "sys_run env s0 es s"
    and "sys_accept s = Stopped"
  shows "active_connections (sys_stats s) = int (card (dom (sys_tasks s))) \<and>
    (\<forall>(fs :: ('cert, 'der, 'skey, 's) event list) s'. sys_run env s fs s' \<longrightarrow>
       sys_accept s' = Stopped \<and> dom (sys_tasks s') \<subseteq> dom (sys_tasks s)) \<and>
    (\<exists>(fs :: ('cert, 'der, 'skey, 's) event list) s'. sys_run env s fs s' \<and>
       length fs = card (dom (sys_tasks s)) \<and> sys_tasks s' = Map.empty \<and>
       active_connections (sys_stats s') = 0)"
proof -
  have active: "active_connections (sys_stats s') = int (card (dom (sys_tasks s')))"
    if "sys_run env s0 fs s'" "sys_accept s' = Stopped" for fs :: "('cert, 'der, 'skey, 's) event list" and s'
    by (rule active_when_stopped [OF assms(1-3) that])
  have fin: "finite (dom (sys_tasks s))"
    by (rule sys_invD(1) [OF sys_run_inv [OF assms(4,2) startup_inv [OF assms(1-3)]]])
  obtain fs :: "('cert, 'der, 'skey, 's) event list" and s'
    where fs: "sys_run env s fs s'" "length fs = card (dom (sys_tasks s))" "sys_tasks s' = Map.empty"
      "sys_accept s' = sys_accept s"
    using run_all_end [OF fin refl] by blast
  have "active_connections (sys_stats s') = 0"
    using active [OF sys_run_append [OF assms(4) fs(1)]] fs(3,4) assms(5) by simp
  then show ?thesis
    using active [OF assms(4,5)] run_stopped [OF _ assms(5)] fs(1-3) by blast
qed

text \<open>The sample process after its shutdown signal, with one connection alive.\<close>

lemma sample_stops:
  "\<exists>s0 s. sample_startup = Inr s0 \<and> unat (max_connections (sys_config s0)) \<le> MAX_PERMITS \<and>
     sys_run sample_env s0 (sample_events @ [Ev_shutdown]) s \<and> sys_accept s = Stopped"
proof -
  obtain s0 s where s0: "sample_startup = Inr s0" "sys_config s0 = sample_config"
    and run: "sys_run sample_env s0 sample_events s" "sys_accept s = Needs_slot"
    using sample_runs by blast
  have "sys_run sample_env s0 (sample_events @ [Ev_shutdown]) (accept_stop sample_env s)"
    by (rule sys_run_snoc [OF run(1) shutdown]) (simp add: run(2))
  moreover have "sys_accept (accept_stop sample_env s) = Stopped" by (simp add: accept_stop_def)
  ultimately show ?thesis using s0 by (auto simp: MAX_PERMITS_def sample_config_simps)
qed

lemma shutdown_drains_witness:
  "\<exists>s0 s s'. sample_startup = Inr s0 \<and> sys_run sample_env s0 (sample_events @ [Ev_shutdown]) s \<and>
     (\<exists>fs :: (nat, nat, nat, unit socket_event list) event list. sys_run sample_env s fs s') \<and>
     active_connections (sys_stats s') = 0"
proof -
  obtain s0 s where s: "sample_startup = Inr s0" "unat (max_connections (sys_config s0)) \<le> MAX_PERMITS"
    "sys_run sample_env s0 (sample_events @ [Ev_shutdown]) s" "sys_accept s = Stopped"
    using sample_stops by blast
  show ?thesis
    using shutdown_drains [OF s(1) [unfolded sample_startup_def] sample_env_ok(1) s(2-4)] s by blast
qed

text \<open>
  C13: Polling the process as it goes on after the shutdown signal, the drain returns after at most
  151 readings of the counter, and it reports a drained process exactly when no connection is alive
  at that reading; otherwise the grace period is over and it reports how many still are.
\<close>

theorem drain_sees_connections:
  fixes es :: "('cert, 'der, 'skey, 's) event list" and fs :: "nat \<Rightarrow> ('cert, 'der, 'skey, 's) event list"
  assumes "startup env h p dirs install_ok bind_ok wall now = Inr s0" "semaphore_ok (env_sem env) permits"
    and "unat (max_connections (sys_config s0)) \<le> MAX_PERMITS" "sys_run env s0 es s"
    and "sys_accept s = Stopped" "\<forall>k. sys_run env s (fs k) (later k)"
    and "\<forall>k. clock k + POLL_INTERVAL \<le> clock (Suc k)" "t0 \<le> clock 0"
  shows "\<exists>r k. wait_for_drain (\<lambda>k. (active_connections (sys_stats (later k)), clock k)) t0 SHUTDOWN_GRACE
        = Some (r, k) \<and> k \<le> 150 \<and>
    (case r of
       Drained \<Rightarrow> sys_tasks (later k) = Map.empty
     | Grace_period_elapsed n \<Rightarrow>
         n = int (card (dom (sys_tasks (later k)))) \<and> 0 < n \<and> t0 + SHUTDOWN_GRACE \<le> clock k)"
proof -
  let ?reading = "\<lambda>k. (active_connections (sys_stats (later k)), clock k)"
  have stopped: "sys_accept (later k) = Stopped" for k
    using run_stopped assms(5,6) by blast
  have run: "sys_run env s0 (es @ fs k) (later k)" for k
    using sys_run_append assms(4,6) by blast
  have active: "active_connections (sys_stats (later k)) = int (card (dom (sys_tasks (later k))))" for k
    by (rule active_when_stopped [OF assms(1-3) run stopped])
  have fin: "finite (dom (sys_tasks (later k)))" for k
    by (rule sys_invD(1) [OF sys_run_inv [OF run assms(2) startup_inv [OF assms(1-3)]]])
  obtain r k where "wait_for_drain ?reading t0 SHUTDOWN_GRACE = Some (r, k)" "k \<le> 150"
    "case r of Drained \<Rightarrow> fst (?reading k) \<le> 0
     | Grace_period_elapsed a \<Rightarrow> fst (?reading k) = a \<and> 0 < a \<and> t0 + SHUTDOWN_GRACE \<le> snd (?reading k)"
    using drain_returns [of ?reading t0] assms(7,8) by auto
  then show ?thesis
    using fin [of k] by (intro exI [of _ r] exI [of _ k]) (auto simp: active split: drain_result.splits)
qed

lemma drain_sees_connections_witness:
  "\<exists>s0 s r. sample_startup = Inr s0 \<and> sys_run sample_env s0 (sample_events @ [Ev_shutdown]) s \<and>
     (\<exists>k \<le> 150. wait_for_drain (\<lambda>k. (active_connections (sys_stats s), k * POLL_INTERVAL)) 0 SHUTDOWN_GRACE
        = Some (r, k))"
proof -
  obtain s0 s where s: "sample_startup = Inr s0" "unat (max_connections (sys_config s0)) \<le> MAX_PERMITS"
    "sys_run sample_env s0 (sample_events @ [Ev_shutdown]) s" "sys_accept s = Stopped"
    using sample_stops by blast
  have runs: "\<forall>k :: nat. sys_run sample_env s ([] :: (nat, nat, nat, unit socket_event list) event list) s"
    by (simp add: run_nil)
  have clock: "\<forall>k. k * POLL_INTERVAL + POLL_INTERVAL \<le> Suc k * POLL_INTERVAL" "0 \<le> 0 * POLL_INTERVAL"
    by simp_all
  show ?thesis
    using drain_sees_connections [OF s(1) [unfolded sample_startup_def] sample_env_ok(1) s(2-4) runs clock] s
    by blast
qed

text \<open>
  C15: The metrics are write-only: a run of the process adds to its statistics a sum that does not
  depend on what they held, and from any other counters the same run is possible, with the same
  effect on everything else. Nothing the process does depends on a counter.
\<close>

theorem metrics_write_only:
  assumes "sys_run env s es s'"
  shows "\<exists>\<delta>. sys_stats s' = sys_stats s + \<delta> \<and>
    (\<forall>st. sys_run env (with_stats st s) es (with_stats (st + \<delta>) s'))"
proof -
  obtain f where f: "tallies f" "sys_stats s' = f (sys_stats s)"
    "\<And>st. sys_run env (with_stats st s) es (with_stats (f st) s')"
    using run_write_only [OF assms] by blast
  have "sys_run env (with_stats st s) es (with_stats (st + f 0) s')" for st
    using f(3) [of st] tallies_apply [OF f(1), of st] by simp
  then show ?thesis using f(2) tallies_apply [OF f(1), of "sys_stats s"] by (intro exI [of _ "f 0"]) simp
qed

lemma metrics_write_only_witness:
  "\<exists>s0 s \<delta>. sample_startup = Inr s0 \<and> sys_stats s = sys_stats s0 + \<delta> \<and>
     sys_run sample_env (with_stats (new_stats 7) s0) sample_events (with_stats (new_stats 7 + \<delta>) s)"
proof -
  obtain s0 s where s: "sample_startup = Inr s0" "sys_run sample_env s0 sample_events s"
    using sample_runs by blast
  then show ?thesis using metrics_write_only [OF s(2)] by blast
qed

text \<open>
  C14: What a scrape of the metrics endpoint says of a reachable state. The endpoint, when it runs, listens
  on a loopback address and answers with a page on which a scraper reads: the configured limit; as
  available, the limit less the slots held, never a wrapped difference, where the slot that the accept
  loop has reserved for the next connection counts as held; as active connections of a route, the number
  of tasks with a guard of that route; and as the number of routes, the one of the configuration the process was
  started with, whatever was loaded since.
\<close>

theorem availability_reported:
  assumes "startup env h p dirs install_ok bind_ok wall now = Inr s0" "semaphore_ok (env_sem env) permits"
    and "unat (max_connections (sys_config s0)) \<le> MAX_PERMITS" "sys_run env s0 es s"
    and "sys_metrics s = Some (addr, cfg)"
  shows "let resp = handle_request js t \<lparr>req_method = ''GET'', req_path = ''/metrics'', req_if_none_match = None\<rparr>
                      (sys_stats s) cfg;
             page = resp_body resp; n = unat (max_connections (sys_config s0)) in
    is_loopback (sa_ip addr) \<and> status resp = 200 \<and> slots_held s \<le> n \<and>
    scrape page ''reprox_connections_limit'' = Some (show_nat n) \<and>
    scrape page ''reprox_connections_available'' = Some (show_nat (n - slots_held s)) \<and>
    scrape page (series ''reprox_connections_active'' [(''route'', ''proxied'')]) =
      Some (show_nat (tcount (guarded Proxied) (sys_tasks s))) \<and>
    scrape page (series ''reprox_connections_active'' [(''route'', ''fallback'')]) =
      Some (show_nat (tcount (guarded Fallback) (sys_tasks s))) \<and>
    scrape page ''reprox_config_secret_domains'' = Some (show_nat (length (routes (sys_config s0)) mod 2 ^ 64))"
proof -
  let ?n = "unat (max_connections (sys_config s0))"
  have inv: "sys_inv permits ?n s"
    by (rule sys_run_inv [OF assms(4,2) startup_inv [OF assms(1-3)]])
  then have slots: "connections (sys_stats s) = of_nat (slots_held s)" "slots_held s \<le> ?n" "slots_held s < 2 ^ 63"
    using assms(3) sys_invD(3) [OF inv] by (auto simp: slot_inv_def MAX_PERMITS_def)
  have "sys_metrics s0 = Some (addr, cfg)" using run_metrics [OF assms(4)] assms(5) by simp
  then have cfg: "cfg = sys_config s0" "is_loopback (sa_ip addr)"
    using startup_metrics [OF assms(1)] by auto
  have avail: "unat (u64_saturating_sub (max_connections cfg) (connections (sys_stats s))) = ?n - slots_held s"
    using slots cfg(1) by (simp add: unat_u64_saturating_sub unat_of_nat_u64)
  have gauge: "show_int (sint (guard_gauge k (sys_stats s))) = show_nat (tcount (guarded k) (sys_tasks s))" for k
  proof -
    have "tcount (guarded k) (sys_tasks s) \<le> slots_held s"
      using tcount_mono [OF sys_invD(1) [OF inv], of "guarded k" "\<lambda>_. True"]
      by (simp add: slots_held_tasks tcount_True)
    then show ?thesis
      using slots(3) sys_invD(4) [OF inv, of k] by (simp add: sint_of_nat_small show_int_def)
  qed
  show ?thesis
    using slots(2) cfg avail gauge [of Proxied] gauge [of Fallback]
    by (simp add: handle_request_def full_body_def scrape_connections Let_def guard_gauge_def unat_of_nat)
qed

lemma availability_reported_witness:
  "\<exists>s0 s. sample_startup = Inr s0 \<and> sys_run sample_env s0 sample_events s \<and>
     scrape (render_prometheus 0 (sys_stats s) sample_config) ''reprox_connections_available''
       = Some (show_nat (2 - slots_held s))"
proof -
  obtain s0 s where s0: "sample_startup = Inr s0" "sys_config s0 = sample_config"
    and run: "sys_run sample_env s0 sample_events s"
    and api: "sys_metrics s = Some (SocketAddr (V4 127 0 0 1) 9100 0, sample_config)"
    using sample_runs by blast
  have "scrape (render_prometheus 0 (sys_stats s) sample_config) ''reprox_connections_available''
      = Some (show_nat (2 - slots_held s))"
    using availability_reported [OF s0(1) [unfolded sample_startup_def] sample_env_ok(1) _ run api, of _ 0] s0(2)
    by (simp add: MAX_PERMITS_def Let_def sample_config_simps handle_request_def full_body_def)
  then show ?thesis using s0 run by blast
qed

end
